theory Spec2Isabelle
  imports Main
begin

section \<open>The write-ahead log of kudu/consensus/log.cc\<close>

subsection \<open>Statuses and aborting checks\<close>

text \<open>
  A \<open>Status\<close> is either \<open>OK\<close> or an error with its code, its message and its posix
  code (\<open>Status::ServiceUnavailable(msg, msg2, posix_code)\<close>; the second message is
  always empty in log.cc and is left out). A failed \<open>CHECK_*\<close> aborts the process:
  a function that can hit one returns an \<open>outcome\<close>.
\<close>

datatype StatusCode = IOError | ServiceUnavailable | IllegalState | Corruption

datatype Status = OK | Error StatusCode string int

datatype 'a outcome = CheckFailed | Blocked | Returned 'a

fun ok :: "Status \<Rightarrow> bool" where
  "ok OK = True"
| "ok (Error c m p) = False"

subsection \<open>Operation ids, entries and entry batches\<close>

text \<open>
  \<open>consensus::OpId\<close> is the pair of a term and an index (the field \<open>term\<close> is
  written \<open>op_term\<close> here).
\<close>

record OpId =
  op_term :: int
  op_index :: int

text \<open>
  Modelled from the spec: \<open>consensus::MinimumOpId()\<close> (opid_util.cc is not among the
  sources): "The sentinel minimum value is (0,0)".
\<close>

definition MinimumOpId :: OpId where
  "MinimumOpId = \<lparr>op_term = 0, op_index = 0\<rparr>"

datatype LogEntryTypePB = REPLICATE | COMMIT | FLUSH_MARKER

record LogEntryPB =
  entry_type :: LogEntryTypePB
  replicate_id :: OpId

datatype LogEntryState =
  kEntryInitialized | kEntryReserved | kEntrySerialized | kEntryReady | kEntryFailedToAppend

text \<open>
  A \<open>LogEntryBatch\<close> on the heap. \<open>batch_id\<close> stands for the object's address;
  \<open>batch_type\<close> is the member \<open>type_\<close>, \<open>batch_state\<close> the member \<open>state_\<close>
  (\<open>set_failed_to_append()\<close> stores \<open>kEntryFailedToAppend\<close> there and
  \<open>failed_to_append()\<close> tests for it); \<open>callback_is_null\<close> is
  \<open>callback().is_null()\<close>.
\<close>

record LogEntryBatch =
  batch_id :: nat
  batch_type :: LogEntryTypePB
  entry_batch_pb :: "LogEntryPB list"
  total_size_bytes :: nat
  count :: nat
  batch_state :: LogEntryState
  callback_is_null :: bool

definition set_failed_to_append :: "LogEntryBatch \<Rightarrow> LogEntryBatch" where
  "set_failed_to_append b = b\<lparr>batch_state := kEntryFailedToAppend\<rparr>"

definition failed_to_append :: "LogEntryBatch \<Rightarrow> bool" where
  "failed_to_append b = (batch_state b = kEntryFailedToAppend)"

subsection \<open>Segments, flags and retention indexes\<close>

text \<open>
  \<open>LogSegmentFooterPB\<close> as log.cc reads it: \<open>max_replicate_index\<close> is the value the
  accessor \<open>footer().max_replicate_index()\<close> returns (an \<open>int64_t\<close>), and likewise
  \<open>min_replicate_index\<close>, with \<open>has_min_replicate_index\<close> its presence bit.
\<close>

record LogSegmentFooterPB =
  num_entries :: int
  has_min_replicate_index :: bool
  min_replicate_index :: int
  max_replicate_index :: int

text \<open>
  A \<open>ReadableLogSegment\<close>: \<open>HasFooter()\<close> is \<open>footer \<noteq> None\<close>;
  \<open>sequence_number\<close> is \<open>header().sequence_number()\<close>.
\<close>

record ReadableLogSegment =
  sequence_number :: nat
  path :: string
  file_size :: int
  footer :: "LogSegmentFooterPB option"

definition HasFooter :: "ReadableLogSegment \<Rightarrow> bool" where
  "HasFooter segment = (footer segment \<noteq> None)"

text \<open>The active \<open>WritableLogSegment\<close>: its path, sequence number, write offset,
  and the footer it was closed with (\<open>IsClosed()\<close> is \<open>closed_footer \<noteq> None\<close>).\<close>

record WritableLogSegment =
  w_path :: string
  w_sequence_number :: nat
  written_offset :: nat
  closed_footer :: "LogSegmentFooterPB option"

text \<open>The two gflags \<open>FLAGS_log_min_segments_to_retain\<close> and
  \<open>FLAGS_log_max_segments_to_retain\<close> (\<open>int32\<close>, defaults 2 and 10).\<close>

record Flags =
  log_min_segments_to_retain :: int
  log_max_segments_to_retain :: int

definition default_flags :: Flags where
  "default_flags = \<lparr>log_min_segments_to_retain = 2, log_max_segments_to_retain = 10\<rparr>"

definition ValidateLogsToRetain :: "int \<Rightarrow> bool" where
  "ValidateLogsToRetain v = (v \<ge> 1)"

record RetentionIndexes =
  for_durability :: int
  for_peers :: int

subsection \<open>The log object and its environment\<close>

datatype LogState = kLogInitialized | kLogWriting | kLogClosed

datatype SegmentAllocationState =
  kAllocationNotStarted | kAllocationInProgress | kAllocationFinished

text \<open>
  What the log did to the outside world, in order: the history a test observes.
  \<open>Fsync\<close> is a successful \<open>active_segment_->Sync()\<close>; \<open>WroteEntryBatch i\<close> a
  successful \<open>WriteEntryBatch\<close> of the batch with id \<open>i\<close>.
\<close>

datatype LogEvent =
    SetLastEntryOpId OpId
  | SubmittedAllocation
  | Fsync
  | WroteFooterAndClosed nat
  | SwitchedToSegment nat
  | WroteEntryBatch nat
  | AddedIndexEntry OpId nat nat
  | DeletedFile string
  | IndexGC int

text \<open>
  Modelled from the spec: the entry queue (\<open>BlockingQueue\<close>, blocking_queue.h is not
  among the sources): a FIFO bounded by the total bytes of its items, which can be
  closed ("During shutdown the queue is closed").
\<close>

record BlockingQueue =
  queue_items :: "LogEntryBatch list"
  queue_size :: nat
  queue_max_size :: nat
  queue_shutdown :: bool

record Log =
  log_state :: LogState
  force_sync_all :: bool
  sync_disabled :: bool
  async_preallocate_segments :: bool
  max_segment_size :: nat
  allocation_state :: SegmentAllocationState
  active_segment_sequence_number :: nat
  active_segment :: "WritableLogSegment option"
  footer_builder :: LogSegmentFooterPB
  last_entry_op_id :: "OpId option"
  reader_segments :: "ReadableLogSegment list"
  entry_batch_queue :: BlockingQueue
  history :: "LogEvent list"

text \<open>
  The calls log.cc makes into code that is not among the sources and whose
  \<open>Status\<close> it tests. The environment answers each of them.
\<close>

datatype ExtCall =
    SubmitClosure
  | AllocationStatusGet
  | SegmentSync
  | PostSyncIfFsyncEnabled
  | PostSync
  | PostAppend
  | WriteFooterAndClose
  | OpenFileForRandom
  | ReadableInit
  | ReplaceLastSegment
  | RenameFile
  | SyncDir
  | SchemaToPB
  | WriteHeaderAndOpen
  | NewRandomAccessFile
  | AppendEmptySegment
  | WriteEntryBatch nat
  | AddEntry OpId
  | DeleteFile string

text \<open>
  The environment of a run. \<open>ext c lg\<close> is the status the call \<open>c\<close> returns when
  made in the log state \<open>lg\<close> (which holds the whole history, so the answer may
  depend on anything that happened before); the hooks of \<open>log_hooks_\<close> answer \<open>OK\<close>
  when no hook is installed. \<open>inject_io_error_on_append\<close> says whether
  \<open>MAYBE_RETURN_FAILURE(FLAGS_log_inject_io_error_on_append_fraction, ...)\<close> fires;
  \<open>allocation_finished\<close> whether the allocation task, which runs on its own thread,
  has finished by now. \<open>MaxReplicateOpId\<close>, \<open>ByteSize\<close>, \<open>active_segment_Size\<close>,
  \<open>frame_bytes\<close>, \<open>first_entry_offset\<close>, \<open>GetWalSegmentFileName\<close> and
  \<open>segment_file_size\<close> are the values of the functions of those names in log.h,
  log_util.h and fs_manager.h.
\<close>

record Env =
  ext :: "ExtCall \<Rightarrow> Log \<Rightarrow> Status"
  inject_io_error_on_append :: "Log \<Rightarrow> bool"
  allocation_finished :: "Log \<Rightarrow> bool"
  MaxReplicateOpId :: "LogEntryBatch \<Rightarrow> OpId"
  ByteSize :: "LogEntryPB list \<Rightarrow> nat"
  active_segment_Size :: "Log \<Rightarrow> nat"
  frame_bytes :: "LogEntryBatch \<Rightarrow> nat"
  first_entry_offset :: nat
  GetWalSegmentFileName :: "nat \<Rightarrow> string"
  segment_file_size :: "Log \<Rightarrow> int"

definition add_event :: "LogEvent \<Rightarrow> Log \<Rightarrow> Log" where
  "add_event e lg = lg\<lparr>history := history lg @ [e]\<rparr>"

text \<open>\<open>RETURN_NOT_OK_PREPEND(s, msg)\<close> returns \<open>s.CloneAndPrepend(msg)\<close>: the same code
  with \<open>msg\<close> and a colon before the message.\<close>

fun CloneAndPrepend :: "string \<Rightarrow> Status \<Rightarrow> Status" where
  "CloneAndPrepend msg OK = OK"
| "CloneAndPrepend msg (Error c m p) = Error c (msg @ '': '' @ m) p"

subsection \<open>Sync, segment allocation and rollover\<close>

text \<open>\<open>Log::Sync\<close>. The injected latency only sleeps and is left out.\<close>

definition Sync :: "Env \<Rightarrow> Log \<Rightarrow> Status \<times> Log" where
  "Sync env lg =
     (if force_sync_all lg \<and> \<not> sync_disabled lg then
        (if \<not> ok (ext env SegmentSync lg) then (ext env SegmentSync lg, lg)
         else
           let lg1 = add_event Fsync lg in
           if \<not> ok (ext env PostSyncIfFsyncEnabled lg1)
           then (CloneAndPrepend ''PostSyncIfFsyncEnabled hook failed''
                   (ext env PostSyncIfFsyncEnabled lg1), lg1)
           else if \<not> ok (ext env PostSync lg1)
           then (CloneAndPrepend ''PostSync hook failed'' (ext env PostSync lg1), lg1)
           else (OK, lg1))
      else if \<not> ok (ext env PostSync lg)
      then (CloneAndPrepend ''PostSync hook failed'' (ext env PostSync lg), lg)
      else (OK, lg))"

text \<open>\<open>Log::AsyncAllocateSegment\<close>.\<close>

definition AsyncAllocateSegment :: "Env \<Rightarrow> Log \<Rightarrow> (Status \<times> Log) outcome" where
  "AsyncAllocateSegment env lg =
     (if allocation_state lg \<noteq> kAllocationNotStarted then CheckFailed
      else
        let lg1 = lg\<lparr>allocation_state := kAllocationInProgress\<rparr> in
        if \<not> ok (ext env SubmitClosure lg1) then Returned (ext env SubmitClosure lg1, lg1)
        else Returned (OK, add_event SubmittedAllocation lg1))"

text \<open>\<open>Log::CloseCurrentSegment\<close>: the footer gets its close timestamp (not
  modelled) and is written.\<close>

definition CloseCurrentSegment :: "Env \<Rightarrow> Log \<Rightarrow> (Status \<times> Log) outcome" where
  "CloseCurrentSegment env lg =
     (case active_segment lg of
        None \<Rightarrow> CheckFailed
      | Some seg \<Rightarrow>
          if \<not> ok (ext env WriteFooterAndClose lg) then Returned (ext env WriteFooterAndClose lg, lg)
          else Returned (OK,
                 add_event (WroteFooterAndClosed (w_sequence_number seg))
                   (lg\<lparr>active_segment := Some (seg\<lparr>closed_footer := Some (footer_builder lg)\<rparr>)\<rparr>)))"

text \<open>\<open>Log::ReplaceSegmentInReaderUnlocked\<close>: the closed active segment replaces
  the last segment of the reader, now with its footer.\<close>

definition ReplaceSegmentInReaderUnlocked :: "Env \<Rightarrow> Log \<Rightarrow> (Status \<times> Log) outcome" where
  "ReplaceSegmentInReaderUnlocked env lg =
     (case active_segment lg of
        None \<Rightarrow> CheckFailed
      | Some seg \<Rightarrow>
          (case closed_footer seg of
             None \<Rightarrow> CheckFailed
           | Some ft \<Rightarrow>
               if \<not> ok (ext env OpenFileForRandom lg) then Returned (ext env OpenFileForRandom lg, lg)
               else if \<not> ok (ext env ReadableInit lg) then Returned (ext env ReadableInit lg, lg)
               else if \<not> ok (ext env ReplaceLastSegment lg) then Returned (ext env ReplaceLastSegment lg, lg)
               else Returned (OK,
                      lg\<lparr>reader_segments := butlast (reader_segments lg) @
                          [\<lparr>sequence_number = w_sequence_number seg, path = w_path seg,
                            file_size = segment_file_size env lg, footer = Some ft\<rparr>]\<rparr>)))"

text \<open>\<open>Log::SwitchToAllocatedSegment\<close>.\<close>

definition SwitchToAllocatedSegment :: "Env \<Rightarrow> Log \<Rightarrow> (Status \<times> Log) outcome" where
  "SwitchToAllocatedSegment env lg =
     (if allocation_state lg \<noteq> kAllocationFinished then CheckFailed
      else
        let lg1 = lg\<lparr>active_segment_sequence_number := active_segment_sequence_number lg + 1\<rparr>;
            seq = active_segment_sequence_number lg1;
            new_segment_path = GetWalSegmentFileName env seq in
        if \<not> ok (ext env RenameFile lg1) then Returned (ext env RenameFile lg1, lg1)
        else if force_sync_all lg1 \<and> \<not> ok (ext env SyncDir lg1) then Returned (ext env SyncDir lg1, lg1)
        else
          let lg2 = lg1\<lparr>footer_builder :=
                      \<lparr>num_entries = 0, has_min_replicate_index = False,
                       min_replicate_index = 0, max_replicate_index = 0\<rparr>\<rparr> in
          if \<not> ok (ext env SchemaToPB lg2) then Returned (ext env SchemaToPB lg2, lg2)
          else if \<not> ok (ext env WriteHeaderAndOpen lg2) then Returned (ext env WriteHeaderAndOpen lg2, lg2)
          else
            (case (if active_segment lg2 \<noteq> None then ReplaceSegmentInReaderUnlocked env lg2
                   else Returned (OK, lg2)) of
               CheckFailed \<Rightarrow> CheckFailed
             | Blocked \<Rightarrow> Blocked
             | Returned (s, lg3) \<Rightarrow>
                 if \<not> ok s then CheckFailed
                 else if \<not> ok (ext env NewRandomAccessFile lg3) then Returned (ext env NewRandomAccessFile lg3, lg3)
                 else if \<not> ok (ext env ReadableInit lg3) then Returned (ext env ReadableInit lg3, lg3)
                 else if \<not> ok (ext env AppendEmptySegment lg3) then Returned (ext env AppendEmptySegment lg3, lg3)
                 else Returned (OK,
                        add_event (SwitchedToSegment seq)
                          (lg3\<lparr>reader_segments := reader_segments lg3 @
                                 [\<lparr>sequence_number = seq, path = new_segment_path,
                                   file_size = segment_file_size env lg3, footer = None\<rparr>],
                               active_segment := Some \<lparr>w_path = new_segment_path,
                                   w_sequence_number = seq,
                                   written_offset = first_entry_offset env,
                                   closed_footer = None\<rparr>,
                               allocation_state := kAllocationNotStarted\<rparr>))))"

text \<open>
  \<open>Log::RollOver\<close>. \<open>allocation_status_.Get()\<close> waits for the allocation task, so
  an allocation in progress is finished when it returns.
\<close>

definition RollOver :: "Env \<Rightarrow> Log \<Rightarrow> (Status \<times> Log) outcome" where
  "RollOver env lg =
     (let lg0 = (if allocation_state lg = kAllocationInProgress
                 then lg\<lparr>allocation_state := kAllocationFinished\<rparr> else lg) in
      if \<not> ok (ext env AllocationStatusGet lg0) then Returned (ext env AllocationStatusGet lg0, lg0)
      else
        case Sync env lg0 of (s1, lg1) \<Rightarrow>
        if \<not> ok s1 then Returned (s1, lg1)
        else
          (case CloseCurrentSegment env lg1 of
             CheckFailed \<Rightarrow> CheckFailed
           | Blocked \<Rightarrow> Blocked
           | Returned (s2, lg2) \<Rightarrow>
               if \<not> ok s2 then Returned (s2, lg2)
               else SwitchToAllocatedSegment env lg2))"


subsection \<open>DoAppend\<close>

text \<open>
  \<open>Log::UpdateIndexForBatch\<close>: one index entry per entry of a REPLICATE batch, all
  at the batch's start offset; the first \<open>AddEntry\<close> that fails is returned.
\<close>

fun add_index_entries :: "Env \<Rightarrow> Log \<Rightarrow> LogEntryPB list \<Rightarrow> nat \<Rightarrow> Status \<times> Log" where
  "add_index_entries env lg [] start_offset = (OK, lg)"
| "add_index_entries env lg (entry_pb # rest) start_offset =
     (if \<not> ok (ext env (AddEntry (replicate_id entry_pb)) lg)
      then (ext env (AddEntry (replicate_id entry_pb)) lg, lg)
      else add_index_entries env
             (add_event (AddedIndexEntry (replicate_id entry_pb)
                           (active_segment_sequence_number lg) start_offset) lg)
             rest start_offset)"

definition UpdateIndexForBatch :: "Env \<Rightarrow> Log \<Rightarrow> LogEntryBatch \<Rightarrow> nat \<Rightarrow> Status \<times> Log" where
  "UpdateIndexForBatch env lg batch start_offset =
     (if batch_type batch \<noteq> REPLICATE then (OK, lg)
      else add_index_entries env lg (entry_batch_pb batch) start_offset)"

text \<open>
  Modelled from the spec: \<open>UpdateFooterForReplicateEntry\<close> (log_util.cc is not among
  the sources): "Update the footer accumulator (num_entries,
  min/max_replicate_index)" with the index of the entry.
\<close>

definition UpdateFooterForReplicateEntry :: "LogEntryPB \<Rightarrow> LogSegmentFooterPB \<Rightarrow> LogSegmentFooterPB" where
  "UpdateFooterForReplicateEntry entry_pb ft =
     (let i = op_index (replicate_id entry_pb) in
      if \<not> has_min_replicate_index ft
      then ft\<lparr>has_min_replicate_index := True, min_replicate_index := i, max_replicate_index := i\<rparr>
      else ft\<lparr>min_replicate_index := min i (min_replicate_index ft),
              max_replicate_index := max i (max_replicate_index ft)\<rparr>)"

definition UpdateFooterForBatch :: "LogEntryBatch \<Rightarrow> Log \<Rightarrow> Log" where
  "UpdateFooterForBatch batch lg =
     (let ft = (footer_builder lg)\<lparr>num_entries := num_entries (footer_builder lg) + int (count batch)\<rparr> in
      lg\<lparr>footer_builder :=
           (if batch_type batch = REPLICATE
            then foldl (\<lambda>f e. UpdateFooterForReplicateEntry e f) ft (entry_batch_pb batch)
            else ft)\<rparr>)"

text \<open>
  The allocation state as \<open>allocation_state()\<close> reads it: an allocation in progress
  may have been finished by the allocation thread in the meantime.
\<close>

definition poll_allocation :: "Env \<Rightarrow> Log \<Rightarrow> Log" where
  "poll_allocation env lg =
     (if allocation_state lg = kAllocationInProgress \<and> allocation_finished env lg
      then lg\<lparr>allocation_state := kAllocationFinished\<rparr> else lg)"

text \<open>The \<open>if\<close> chain of \<open>DoAppend\<close> that starts an allocation or rolls over.\<close>

definition roll_if_needed :: "Env \<Rightarrow> Log \<Rightarrow> nat \<Rightarrow> (Status \<times> Log) outcome" where
  "roll_if_needed env lg0 entry_batch_bytes =
     (let lg = poll_allocation env lg0 in
      if allocation_state lg = kAllocationNotStarted then
        (if active_segment_Size env lg + entry_batch_bytes + 4 > max_segment_size lg then
           (case AsyncAllocateSegment env lg of
              CheckFailed \<Rightarrow> CheckFailed
            | Blocked \<Rightarrow> Blocked
            | Returned (s, lg1) \<Rightarrow>
                if \<not> ok s then Returned (s, lg1)
                else if \<not> async_preallocate_segments lg1 then RollOver env lg1
                else Returned (OK, lg1))
         else Returned (OK, lg))
      else if allocation_state lg = kAllocationFinished then RollOver env lg
      else Returned (OK, lg))"

text \<open>
  The rest of \<open>DoAppend\<close>: the write, the hook, the index (under \<open>CHECK_OK\<close>) and
  the footer. The reader's offset and the metrics are not modelled.
\<close>

definition write_and_index :: "Env \<Rightarrow> Log \<Rightarrow> LogEntryBatch \<Rightarrow> (Status \<times> Log) outcome" where
  "write_and_index env lg entry_batch =
     (case active_segment lg of
        None \<Rightarrow> CheckFailed
      | Some seg \<Rightarrow>
          let start_offset = written_offset seg in
          if \<not> ok (ext env (WriteEntryBatch (batch_id entry_batch)) lg)
          then Returned (ext env (WriteEntryBatch (batch_id entry_batch)) lg, lg)
          else
            let lg1 = add_event (WroteEntryBatch (batch_id entry_batch))
                        (lg\<lparr>active_segment :=
                              Some (seg\<lparr>written_offset := written_offset seg + frame_bytes env entry_batch\<rparr>)\<rparr>) in
            if \<not> ok (ext env PostAppend lg1)
            then Returned (CloneAndPrepend ''PostAppend hook failed'' (ext env PostAppend lg1), lg1)
            else
              case UpdateIndexForBatch env lg1 entry_batch start_offset of (s, lg2) \<Rightarrow>
              if \<not> ok s then CheckFailed
              else Returned (OK, UpdateFooterForBatch entry_batch lg2))"

text \<open>
  \<open>Log::DoAppend\<close>. The \<open>DCHECK_GT(num_entries, 0)\<close> is compiled out of release
  builds. \<open>entry_batch_bytes\<close> is a \<open>uint32_t\<close>, as is the member it is read from.
\<close>

definition DoAppend :: "Env \<Rightarrow> Log \<Rightarrow> LogEntryBatch \<Rightarrow> (Status \<times> Log) outcome" where
  "DoAppend env lg entry_batch =
     (if inject_io_error_on_append env lg
      then Returned (Error IOError ''Injected IOError in Log::DoAppend()'' (-1), lg)
      else
        let entry_batch_bytes = total_size_bytes entry_batch in
        if entry_batch_bytes = 0 then Returned (OK, lg)
        else
          let lg1 = (if batch_type entry_batch = REPLICATE
                     then add_event (SetLastEntryOpId (MaxReplicateOpId env entry_batch))
                            (lg\<lparr>last_entry_op_id := Some (MaxReplicateOpId env entry_batch)\<rparr>)
                     else lg) in
          case roll_if_needed env lg1 entry_batch_bytes of
            CheckFailed \<Rightarrow> CheckFailed
          | Blocked \<Rightarrow> Blocked
          | Returned (s, lg2) \<Rightarrow>
              if \<not> ok s then Returned (s, lg2)
              else write_and_index env lg2 entry_batch)"

text \<open>\<open>Log::GetLatestEntryOpId\<close>: the value stored through the out parameter.
  \<open>last_entry_op_id_.IsInitialized()\<close> is \<open>last_entry_op_id \<noteq> None\<close>.\<close>

definition GetLatestEntryOpId :: "Log \<Rightarrow> OpId" where
  "GetLatestEntryOpId lg =
     (case last_entry_op_id lg of
        Some op_id \<Rightarrow> op_id
      | None \<Rightarrow> MinimumOpId)"

text \<open>
  The batches whose bytes an fsync has covered: written, with a later \<open>Fsync\<close> in
  the history.
\<close>

fun durable_batches :: "LogEvent list \<Rightarrow> nat list" where
  "durable_batches [] = []"
| "durable_batches (WroteEntryBatch i # es) =
     (if Fsync \<in> set es then i # durable_batches es else durable_batches es)"
| "durable_batches (e # es) = durable_batches es"

subsection \<open>Reserve and AsyncAppend\<close>

text \<open>
  Modelled from the spec: \<open>BlockingQueue::BlockingPut\<close> and \<open>Shutdown\<close>: "If the
  queue is over budget the caller blocks", "Reserve: blocks when the entry queue's
  byte budget is full; unblocks on appender drain or shutdown", and on a closed
  queue the put is refused and nothing is enqueued.
\<close>

definition BlockingPut :: "LogEntryBatch \<Rightarrow> BlockingQueue \<Rightarrow> (bool \<times> BlockingQueue) outcome" where
  "BlockingPut b q =
     (if queue_shutdown q then Returned (False, q)
      else if queue_size q < queue_max_size q
      then Returned (True, q\<lparr>queue_items := queue_items q @ [b],
                             queue_size := queue_size q + total_size_bytes b\<rparr>)
      else Blocked)"

definition Shutdown_queue :: "BlockingQueue \<Rightarrow> BlockingQueue" where
  "Shutdown_queue q = q\<lparr>queue_shutdown := True\<rparr>"

definition ESHUTDOWN :: int where
  "ESHUTDOWN = 108"

definition kLogShutdownStatus :: Status where
  "kLogShutdownStatus = Error ServiceUnavailable ''WAL is shutting down'' ESHUTDOWN"

text \<open>
  The constructor of \<open>LogEntryBatch\<close> followed by \<open>MarkReserved\<close>. Its callers
  pass \<open>count = entry_size()\<close>, so \<open>entry(0)\<close> exists whenever \<open>count = 1\<close>.
\<close>

definition new_LogEntryBatch :: "Env \<Rightarrow> nat \<Rightarrow> LogEntryTypePB \<Rightarrow> LogEntryPB list \<Rightarrow> nat \<Rightarrow> LogEntryBatch" where
  "new_LogEntryBatch env addr tp entry_batch n =
     \<lparr>batch_id = addr, batch_type = tp, entry_batch_pb = entry_batch,
      total_size_bytes =
        (if n = 1 \<and> (case entry_batch of [] \<Rightarrow> False | e # es \<Rightarrow> entry_type e = FLUSH_MARKER)
         then 0 else ByteSize env entry_batch),
      count = n, batch_state = kEntryInitialized, callback_is_null = True\<rparr>"

definition MarkReserved :: "LogEntryBatch \<Rightarrow> LogEntryBatch" where
  "MarkReserved b = b\<lparr>batch_state := kEntryReserved\<rparr>"

text \<open>
  \<open>Log::Reserve\<close>; \<open>addr\<close> is the address \<open>new\<close> gives the batch. The result is the
  status, the batch stored in \<open>*reserved_entry\<close> (if any) and the log. The check of
  the entries' types is compiled only into debug builds.
\<close>

definition Reserve :: "Env \<Rightarrow> nat \<Rightarrow> LogEntryTypePB \<Rightarrow> LogEntryPB list \<Rightarrow> Log \<Rightarrow> (Status \<times> LogEntryBatch option \<times> Log) outcome" where
  "Reserve env addr tp entry_batch lg =
     (if log_state lg \<noteq> kLogWriting then CheckFailed
      else
        let num_ops = length entry_batch;
            new_entry_batch = MarkReserved (new_LogEntryBatch env addr tp entry_batch num_ops) in
        case BlockingPut new_entry_batch (entry_batch_queue lg) of
          CheckFailed \<Rightarrow> CheckFailed
        | Blocked \<Rightarrow> Blocked
        | Returned (put, q) \<Rightarrow>
            if \<not> put then Returned (kLogShutdownStatus, None, lg\<lparr>entry_batch_queue := q\<rparr>)
            else Returned (OK, Some new_entry_batch, lg\<lparr>entry_batch_queue := q\<rparr>))"

text \<open>\<open>Log::AsyncAppend\<close> on the reserved batch: \<open>Serialize\<close>, \<open>set_callback\<close>,
  \<open>MarkReady\<close>. \<open>cb_is_null\<close> says whether the callback given is the null one.\<close>

definition AsyncAppend :: "Log \<Rightarrow> LogEntryBatch \<Rightarrow> bool \<Rightarrow> LogEntryBatch outcome" where
  "AsyncAppend lg entry_batch cb_is_null =
     (if log_state lg \<noteq> kLogWriting then CheckFailed
      else Returned (entry_batch\<lparr>callback_is_null := cb_is_null, batch_state := kEntryReady\<rparr>))"

subsection \<open>The appender thread\<close>

text \<open>
  What \<open>AppendThread::RunThread\<close> calls, in order: \<open>DoAppend\<close> on a batch with the
  status it returned, the \<open>log_->Sync()\<close> of a group with its status, a batch's
  callback with the status passed, and the \<open>delete\<close> of a batch.
\<close>

datatype AppenderCall =
    CalledDoAppend nat Status
  | CalledSync Status
  | RanCallback nat Status
  | Deleted nat

text \<open>
  The first \<open>for\<close> loop of \<open>RunThread\<close> over the drained batches, which have all
  been marked ready (\<open>WaitForReady\<close> has returned). It yields the log, the batches
  as the loop left them, \<open>is_all_commits\<close> and the calls made.
\<close>

fun append_batches :: "Env \<Rightarrow> Log \<Rightarrow> LogEntryBatch list \<Rightarrow> bool \<Rightarrow> (Log \<times> LogEntryBatch list \<times> bool \<times> AppenderCall list) outcome" where
  "append_batches env lg [] is_all_commits = Returned (lg, [], is_all_commits, [])"
| "append_batches env lg (entry_batch # rest) is_all_commits =
     (case DoAppend env lg entry_batch of
        CheckFailed \<Rightarrow> CheckFailed
      | Blocked \<Rightarrow> Blocked
      | Returned (s, lg1) \<Rightarrow>
          let b1 = (if \<not> ok s then set_failed_to_append entry_batch else entry_batch);
              calls1 = CalledDoAppend (batch_id entry_batch) s #
                       (if \<not> ok s \<and> \<not> callback_is_null entry_batch
                        then [RanCallback (batch_id entry_batch) s] else []);
              is_all_commits1 = (if is_all_commits \<and> batch_type entry_batch \<noteq> COMMIT
                                 then False else is_all_commits) in
          case append_batches env lg1 rest is_all_commits1 of
            CheckFailed \<Rightarrow> CheckFailed
          | Blocked \<Rightarrow> Blocked
          | Returned (lg2, bs, is_all_commits2, calls2) \<Rightarrow>
              Returned (lg2, b1 # bs, is_all_commits2, calls1 @ calls2))"

text \<open>The callbacks run when the group's sync failed.\<close>

definition sync_failure_callbacks :: "Status \<Rightarrow> LogEntryBatch list \<Rightarrow> AppenderCall list" where
  "sync_failure_callbacks s bs =
     map (\<lambda>b. RanCallback (batch_id b) s) (filter (\<lambda>b. \<not> callback_is_null b) bs)"

text \<open>The \<open>delete\<close> of every batch left in the vector.\<close>

definition deletions :: "LogEntryBatch list \<Rightarrow> AppenderCall list" where
  "deletions bs = map (\<lambda>b. Deleted (batch_id b)) bs"

text \<open>The callbacks and deletions after a successful group.\<close>

definition success_callbacks :: "LogEntryBatch list \<Rightarrow> AppenderCall list" where
  "success_callbacks bs =
     concat (map (\<lambda>b. (if \<not> failed_to_append b \<and> \<not> callback_is_null b
                        then [RanCallback (batch_id b) OK] else []) @ [Deleted (batch_id b)]) bs)"

text \<open>
  One pass of the \<open>while\<close> loop of \<open>RunThread\<close> after \<open>BlockingDrainTo\<close> has
  filled \<open>entry_batches\<close>. On a sync failure the batches stay in the vector and the
  \<open>ElementDeleter\<close> deletes them at the end of the pass.
\<close>

definition RunThread_pass :: "Env \<Rightarrow> Log \<Rightarrow> LogEntryBatch list \<Rightarrow> (Log \<times> LogEntryBatch list \<times> AppenderCall list) outcome" where
  "RunThread_pass env lg entry_batches =
     (case append_batches env lg entry_batches True of
        CheckFailed \<Rightarrow> CheckFailed
      | Blocked \<Rightarrow> Blocked
      | Returned (lg1, bs, is_all_commits, calls1) \<Rightarrow>
          (case (if \<not> is_all_commits
                 then (case Sync env lg1 of (s, lg2) \<Rightarrow> (s, lg2, [CalledSync s]))
                 else (OK, lg1, [])) of
             (s, lg2, calls2) \<Rightarrow>
               if \<not> ok s
               then Returned (lg2, bs, calls1 @ calls2 @ sync_failure_callbacks s bs @ deletions bs)
               else Returned (lg2, bs, calls1 @ calls2 @ success_callbacks bs)))"

text \<open>
  \<open>RunThread\<close>: the passes over the successive results of \<open>BlockingDrainTo\<close>, each
  the drained batches and the value returned (\<open>False\<close> once the queue is shut
  down). The thread has exited when a drain returned \<open>False\<close>; with the drains used
  up it waits in \<open>BlockingDrainTo\<close>.
\<close>

fun RunThread :: "Env \<Rightarrow> Log \<Rightarrow> (LogEntryBatch list \<times> bool) list \<Rightarrow> (Log \<times> AppenderCall list) outcome" where
  "RunThread env lg [] = Blocked"
| "RunThread env lg ((entry_batches, drained) # later) =
     (case RunThread_pass env lg entry_batches of
        CheckFailed \<Rightarrow> CheckFailed
      | Blocked \<Rightarrow> Blocked
      | Returned (lg1, bs, calls) \<Rightarrow>
          if \<not> drained then Returned (lg1, calls)
          else (case RunThread env lg1 later of
                  CheckFailed \<Rightarrow> CheckFailed
                | Blocked \<Rightarrow> Blocked
                | Returned (lg2, calls2) \<Rightarrow> Returned (lg2, calls @ calls2)))"

subsection \<open>GetPrefixSizeToGC\<close>

text \<open>
  The range-for loop of \<open>GetPrefixSizeToGC\<close>, with its two counters. \<open>rem_segs\<close>
  starts at \<open>segments.size()\<close>; both counters are C++ \<open>int\<close>s that stay between 0
  and the number of segments, so they are modelled as unbounded integers. Each
  \<open>break\<close> returns the current \<open>prefix_size\<close>.
\<close>

fun gc_loop :: "Flags \<Rightarrow> RetentionIndexes \<Rightarrow> ReadableLogSegment list \<Rightarrow> int \<Rightarrow> int \<Rightarrow> int" where
  "gc_loop fl ri [] rem_segs prefix_size = prefix_size"
| "gc_loop fl ri (segment # rest) rem_segs prefix_size =
     (if rem_segs \<le> log_min_segments_to_retain fl then prefix_size
      else if \<not> HasFooter segment then prefix_size
      else
        let seg_max_idx = max_replicate_index (the (footer segment)) in
        if seg_max_idx \<ge> for_durability ri then prefix_size
        else if seg_max_idx \<ge> for_peers ri \<and> rem_segs \<le> log_max_segments_to_retain fl
        then prefix_size
        else gc_loop fl ri rest (rem_segs - 1) (prefix_size + 1))"

definition GetPrefixSizeToGC :: "Flags \<Rightarrow> RetentionIndexes \<Rightarrow> ReadableLogSegment list \<Rightarrow> int" where
  "GetPrefixSizeToGC fl ri segments = gc_loop fl ri segments (int (length segments)) 0"

text \<open>
  The stopping rule in the words of the design (section 4.9, GC step 1), for the
  segment \<open>seg\<close> reached while \<open>remaining\<close> segments are left: the reference the
  loop is compared with.
\<close>

definition gc_stops_at :: "Flags \<Rightarrow> RetentionIndexes \<Rightarrow> int \<Rightarrow> ReadableLogSegment \<Rightarrow> bool" where
  "gc_stops_at fl ri remaining seg =
     (remaining \<le> log_min_segments_to_retain fl
      \<or> footer seg = None
      \<or> (case footer seg of None \<Rightarrow> False
          | Some ft \<Rightarrow> max_replicate_index ft \<ge> for_durability ri)
      \<or> (case footer seg of None \<Rightarrow> False
          | Some ft \<Rightarrow> max_replicate_index ft \<ge> for_peers ri
                       \<and> remaining \<le> log_max_segments_to_retain fl))"

subsection \<open>GC\<close>

text \<open>
  Modelled from the spec: \<open>LogReader::GetSegmentsSnapshot\<close> (log_reader.cc is not
  among the sources): "snapshot() -> Vec<ReadableSegment>", the reader's segments in
  order, oldest first.
\<close>

definition GetSegmentsSnapshot :: "Log \<Rightarrow> ReadableLogSegment list" where
  "GetSegmentsSnapshot lg = reader_segments lg"

text \<open>
  Modelled from the spec: \<open>LogReader::TrimSegmentsUpToAndIncluding\<close>
  ("trim_segments_up_to_and_including(seq), used by GC"): the segments whose
  sequence number is at most \<open>seq\<close> leave the reader.
\<close>

definition TrimSegmentsUpToAndIncluding :: "nat \<Rightarrow> ReadableLogSegment list \<Rightarrow> ReadableLogSegment list" where
  "TrimSegmentsUpToAndIncluding seq segs = filter (\<lambda>s. sequence_number s > seq) segs"

text \<open>
  Modelled from the spec: \<open>LogReader::GetMinReplicateIndex\<close> ("smallest
  min_replicate_index across remaining footered segments"); \<open>-1\<close> when there is
  none, which the caller's test \<open>min_remaining_op_idx > 0\<close> treats as nothing to do.
\<close>

fun GetMinReplicateIndex :: "ReadableLogSegment list \<Rightarrow> int" where
  "GetMinReplicateIndex [] = -1"
| "GetMinReplicateIndex (s # rest) =
     (let m = GetMinReplicateIndex rest in
      case footer s of
        None \<Rightarrow> m
      | Some ft \<Rightarrow>
          if \<not> has_min_replicate_index ft then m
          else if m = -1 \<or> min_replicate_index ft < m then min_replicate_index ft
          else m)"

definition GetSegmentsToGCUnlocked :: "Flags \<Rightarrow> RetentionIndexes \<Rightarrow> Log \<Rightarrow> ReadableLogSegment list" where
  "GetSegmentsToGCUnlocked fl ri lg =
     (let segments_to_gc = GetSegmentsSnapshot lg in
      take (nat (GetPrefixSizeToGC fl ri segments_to_gc)) segments_to_gc)"

text \<open>
  The deletion loop of \<open>Log::GC\<close>: the first \<open>DeleteFile\<close> that fails is returned,
  with the count reached so far.
\<close>

fun delete_segments :: "Env \<Rightarrow> ReadableLogSegment list \<Rightarrow> int \<Rightarrow> Log \<Rightarrow> Status \<times> int \<times> Log" where
  "delete_segments env [] num_gced lg = (OK, num_gced, lg)"
| "delete_segments env (segment # rest) num_gced lg =
     (if \<not> ok (ext env (DeleteFile (path segment)) lg)
      then (ext env (DeleteFile (path segment)) lg, num_gced, lg)
      else delete_segments env rest (num_gced + 1) (add_event (DeletedFile (path segment)) lg))"

text \<open>
  \<open>Log::GC\<close>. The result is the returned status, the value left in \<open>*num_gced\<close>
  (\<open>None\<close>: not written) and the log afterwards.
\<close>

definition GC :: "Flags \<Rightarrow> Env \<Rightarrow> RetentionIndexes \<Rightarrow> Log \<Rightarrow> (Status \<times> int option \<times> Log) outcome" where
  "GC fl env ri lg =
     (if \<not> for_durability ri \<ge> 0 then CheckFailed
      else if log_state lg \<noteq> kLogWriting then CheckFailed
      else
        let segments_to_delete = GetSegmentsToGCUnlocked fl ri lg in
        if segments_to_delete = [] then Returned (OK, Some 0, lg)
        else
          let lg1 = lg\<lparr>reader_segments :=
                      TrimSegmentsUpToAndIncluding (sequence_number (last segments_to_delete))
                        (reader_segments lg)\<rparr> in
          case delete_segments env segments_to_delete 0 lg1 of (s, n, lg2) \<Rightarrow>
            if \<not> ok s then Returned (s, Some n, lg2)
            else
              let min_remaining_op_idx = GetMinReplicateIndex (reader_segments lg2) in
              Returned (OK, Some n,
                if min_remaining_op_idx > 0 then add_event (IndexGC min_remaining_op_idx) lg2
                else lg2))"

section \<open>The consensus surface the log serves\<close>

text \<open>
  The replica side of \<open>UpdateConsensus\<close> lives in raft_consensus.cc, which is not
  among the sources; raft_consensus-itest.cc drives it over RPC. The definitions of
  this section follow section 4.10 of the design, and the messages follow the
  strings the integration test compares with. Where a push of the integration test
  is answered otherwise than the words of section 4.10 have it, the definition
  follows the test, and its text names the push.
\<close>

subsection \<open>Printing operation ids\<close>

text \<open>Decimal numerals, for the ids in the messages.\<close>

definition digit :: "nat \<Rightarrow> char" where
  "digit d = ''0123456789'' ! d"

fun string_of_nat :: "nat \<Rightarrow> string" where
  "string_of_nat n =
     (if n < 10 then [digit n]
      else string_of_nat (n div 10) @ [digit (n mod 10)])"

definition string_of_int :: "int \<Rightarrow> string" where
  "string_of_int i = (if i < 0 then CHR ''-'' # string_of_nat (nat (- i)) else string_of_nat (nat i))"

text \<open>
  Modelled from the spec: \<open>OpIdToString\<close> (opid_util.cc is not among the sources),
  the form \<open>term.index\<close> the test expects (\<open>"2.6"\<close>, \<open>"0.0"\<close>).
\<close>

definition OpIdToString :: "OpId \<Rightarrow> string" where
  "OpIdToString i = string_of_int (op_term i) @ ''.'' @ string_of_int (op_index i)"

subsection \<open>Requests, responses and the replica\<close>

text \<open>
  Modelled from the spec: the request of \<open>UpdateConsensus\<close> (consensus.proto is not
  among the sources), with the fields section 4.10 lists as consumed
  (\<open>committed_index\<close> is written \<open>req_committed_index\<close>), and the error codes of
  its steps 1 and 2.
\<close>

datatype ConsensusErrorCode = INVALID_TERM | PRECEDING_ENTRY_DIDNT_MATCH

record ConsensusRequest =
  caller_uuid :: string
  caller_term :: int
  preceding_op_id :: OpId
  ops :: "OpId list"
  req_committed_index :: int
  all_replicated_index :: int

text \<open>
  Modelled from the spec: the response, as the integration test reads it:
  \<open>status_error\<close> is \<open>resp.status().error().code()\<close>, \<open>rpc_error\<close> the message of
  \<open>resp.error().status()\<close> (present when \<open>resp.has_error()\<close>); the other three are
  the fields of \<open>resp.status()\<close> that step 2 names.
\<close>

record ConsensusResponse =
  status_error :: "ConsensusErrorCode option"
  rpc_error :: "string option"
  last_committed_idx :: int
  last_received :: OpId
  last_received_current_leader :: OpId

text \<open>
  Modelled from the spec: what the replica's write-ahead log records of an
  operation (section 3): a REPLICATE entry carries the operation with its id, a
  COMMIT entry "references an earlier OpId and records its commit decision".
\<close>

datatype WalEntry = WalReplicate OpId | WalCommit OpId

text \<open>
  Modelled from the spec: the replica's state as far as section 4.10 reads and
  writes it: its term, the operations it has received (oldest first), its committed
  index, the last operation received from the leader of the current term, if any,
  and the entries it has handed to its write-ahead log.
\<close>

record Replica =
  current_term :: int
  received_ops :: "OpId list"
  committed_index :: int
  received_this_term :: "OpId option"
  wal :: "WalEntry list"

text \<open>
  Modelled from the spec: the replica's last-received OpId, the id of the last
  operation it holds, or the minimum id \<open>(0,0)\<close> when it holds none.
\<close>

definition last_received_op :: "Replica \<Rightarrow> OpId" where
  "last_received_op r = (case received_ops r of [] \<Rightarrow> MinimumOpId | x # xs \<Rightarrow> last (x # xs))"

text \<open>
  Modelled from the spec: the status every response carries (steps 2 and 7): the
  replica's committed index, its last-received id and the last id received from the
  current leader, "(0,0) if none this term".
\<close>

definition status_of :: "Replica \<Rightarrow> ConsensusErrorCode option \<Rightarrow> string option \<Rightarrow> ConsensusResponse" where
  "status_of r err msg =
     \<lparr>status_error = err, rpc_error = msg,
      last_committed_idx = committed_index r,
      last_received = last_received_op r,
      last_received_current_leader =
        (case received_this_term r of None \<Rightarrow> MinimumOpId | Some i \<Rightarrow> i)\<rparr>"

subsection \<open>The checks on a pushed batch\<close>

text \<open>
  Modelled from the spec: step 1 for a request that is not stale. A request of a
  later term starts that term at the replica: nothing has been received from its
  leader yet (\<open>TestLMPMismatchOnRestartedReplica\<close> reads \<open>"0.0"\<close> after a push of
  term 3 to a replica of term 2).
\<close>

definition term_step :: "Replica \<Rightarrow> ConsensusRequest \<Rightarrow> Replica" where
  "term_step r req =
     (if caller_term req > current_term r
      then r\<lparr>current_term := caller_term req, received_this_term := None\<rparr> else r)"

text \<open>
  Modelled from the spec: whether the replica has an operation already. Step 2
  compares the preceding id with the last-received id only; the integration test
  has the replica accept pushes whose preceding id is an earlier operation it
  holds (\<open>TestReplaceOperationStuckInPrepareQueue\<close>: preceding 2.3 at a replica
  holding 2.4; \<open>TestReplicaBehaviorViaRPC\<close>, KUDU-639: preceding 2.2 at a replica
  holding 2.4), and accept an operation at an index it has committed
  (\<open>TestLMPMismatchOnRestartedReplica\<close>: 2.1 is pushed after 1.1). So an
  operation counts as had when its index is at most the committed index, or when
  the replica holds an operation with that very id.
\<close>

definition has_op :: "Replica \<Rightarrow> OpId \<Rightarrow> bool" where
  "has_op r i = (op_index i \<le> committed_index r \<or> i \<in> set (received_ops r))"

text \<open>
  Modelled from the spec: the operations of a push that the replica has already
  are passed over (KUDU-639 in \<open>TestReplicaBehaviorViaRPC\<close>: 2.3 is sent again to
  a replica that holds 2.3 and 2.4, the push is accepted and 2.4 stays). The
  result is the last operation passed over, or the preceding id when there is
  none, and the operations that remain.
\<close>

fun skip_held :: "Replica \<Rightarrow> OpId \<Rightarrow> OpId list \<Rightarrow> OpId \<times> OpId list" where
  "skip_held r prev [] = (prev, [])"
| "skip_held r prev (x # xs) = (if has_op r x then skip_held r x xs else (prev, x # xs))"

text \<open>Modelled from the spec: the two messages of step 3.\<close>

definition index_error_text :: string where
  "index_error_text = ''New operation's index does not follow the previous op's index''"

definition term_error_text :: string where
  "term_error_text = ''New operation's term is not >= than the previous op's term''"

text \<open>
  The end of either message as \<open>TestReplicaBehaviorViaRPC\<close> compares it:
  \<open>". Current: 2.6. Previous: 2.4"\<close>.
\<close>

definition current_previous :: "OpId \<Rightarrow> OpId \<Rightarrow> string" where
  "current_previous cur prev =
     ''. Current: '' @ OpIdToString cur @ ''. Previous: '' @ OpIdToString prev"

text \<open>
  Modelled from the spec: the intra-batch check of \<open>UpdateConsensus\<close> (step 3, in
  raft_consensus.cc, not among the sources): "each op's index must be exactly
  previous+1 and term \<ge> previous term", the two conditions in the order the
  sentence names them. No push of the integration test breaks both at one
  operation.
\<close>

definition CheckOpInSequence :: "OpId \<Rightarrow> OpId \<Rightarrow> string option" where
  "CheckOpInSequence prev cur =
     (if op_index cur \<noteq> op_index prev + 1
      then Some (index_error_text @ current_previous cur prev)
      else if op_term cur < op_term prev
      then Some (term_error_text @ current_previous cur prev)
      else None)"

fun CheckOpsInSequence :: "OpId \<Rightarrow> OpId list \<Rightarrow> string option" where
  "CheckOpsInSequence prev [] = None"
| "CheckOpsInSequence prev (cur # rest) =
     (case CheckOpInSequence prev cur of
        Some msg \<Rightarrow> Some msg
      | None \<Rightarrow> CheckOpsInSequence cur rest)"

text \<open>
  Modelled from the spec: what a replica drops when it does not have the leader's
  preceding id (scenario 4 of section 8: "the divergent op has been truncated"): if
  it holds an operation with the preceding id's index under another term, that
  operation and all later ones go.
\<close>

definition truncate_divergent :: "OpId \<Rightarrow> OpId list \<Rightarrow> OpId list" where
  "truncate_divergent preceding held =
     (if list_ex (\<lambda>i. op_index i = op_index preceding \<and> op_term i \<noteq> op_term preceding) held
      then filter (\<lambda>i. op_index i < op_index preceding) held
      else held)"

text \<open>
  Modelled from the spec: the COMMIT entries for the operations held whose index a
  commit advancement from \<open>old\<close> to \<open>new\<close> covers.
\<close>

definition commit_entries :: "int \<Rightarrow> int \<Rightarrow> OpId list \<Rightarrow> WalEntry list" where
  "commit_entries old new held =
     map WalCommit (filter (\<lambda>i. old < op_index i \<and> op_index i \<le> new) held)"

subsection \<open>UpdateConsensus\<close>

text \<open>
  Modelled from the spec: the replica's \<open>UpdateConsensus\<close>
  (\<open>RaftConsensus::Update\<close>, raft_consensus.cc is not among the sources), the
  seven steps of section 4.10 in their order, with these readings that the pushes
  of raft_consensus-itest.cc decide:
  \<^item> step 2 answers \<open>PRECEDING_ENTRY_DIDNT_MATCH\<close> when the replica does not have
    the preceding id (\<open>has_op\<close>), not whenever that id differs from the
    last-received id;
  \<^item> step 3 checks the operations that remain once those the replica has are
    passed over (\<open>skip_held\<close>); the predecessor of the first one is the last
    operation passed over, or the preceding id;
  \<^item> step 4 drops the operations held after that predecessor when new operations
    arrive to overwrite them (scenario 5 of section 8); a push that brings none
    leaves the operations held as they are (after the KUDU-639 push, the test
    commits 2.4 without sending it again);
  \<^item> step 6 advances the committed index to the smaller of the request's
    committed index and the index of the last operation the leader sent (the
    KUDU-639 push: "we shouldn't commit anything higher than the last op sent by
    the leader", 2.2 and 2.3 are committed while 2.4 is held), and never lowers it
    (the first push of \<open>TestLMPMismatchOnRestartedReplica\<close> sets no committed
    index, and index 1 is still committed when 2.1 arrives).
  The replica hands the REPLICATE entries of the new operations and the COMMIT
  entries of the operations newly committed to its write-ahead log.
\<close>

definition UpdateConsensus :: "Replica \<Rightarrow> ConsensusRequest \<Rightarrow> Replica \<times> ConsensusResponse" where
  "UpdateConsensus r0 req =
     (if caller_term req < current_term r0
      then (r0, status_of r0 (Some INVALID_TERM) None)
      else
        let r = term_step r0 req in
        if \<not> has_op r (preceding_op_id req)
        then
          (let r1 = r\<lparr>received_ops := truncate_divergent (preceding_op_id req) (received_ops r)\<rparr>
           in (r1, status_of r1 (Some PRECEDING_ENTRY_DIDNT_MATCH) None))
        else
          case skip_held r (preceding_op_id req) (ops req) of
            (prev, new_ops) \<Rightarrow>
              (case CheckOpsInSequence prev new_ops of
                 Some msg \<Rightarrow> (r, status_of r None (Some msg))
               | None \<Rightarrow>
                   let r1 = (if new_ops = [] then r
                             else r\<lparr>received_ops :=
                                      filter (\<lambda>i. op_index i \<le> op_index prev) (received_ops r)
                                        @ new_ops,
                                    received_this_term := Some (last new_ops),
                                    wal := wal r @ map WalReplicate new_ops\<rparr>);
                       up_to = max (committed_index r1)
                                 (min (req_committed_index req) (op_index (last (prev # new_ops))));
                       r2 = r1\<lparr>committed_index := up_to,
                               wal := wal r1
                                 @ commit_entries (committed_index r1) up_to (received_ops r1)\<rparr>
                   in (r2, status_of r2 None None)))"

text \<open>
  Modelled from the spec: a restart (the tablet server's bootstrap is not among the
  sources). The replica keeps its term and its write-ahead log, and replays the
  log: a REPLICATE entry overwrites what was held from its index on, a COMMIT
  entry raises the committed index to its operation's index
  (\<open>TestLMPMismatchOnRestartedReplica\<close> waits for the highest committed id in the
  log to be 2.2 before it restarts the replica). It has received nothing from any
  leader yet.
\<close>

fun replay_entry :: "OpId list \<times> int \<Rightarrow> WalEntry \<Rightarrow> OpId list \<times> int" where
  "replay_entry (held, c) (WalReplicate i) = (filter (\<lambda>j. op_index j < op_index i) held @ [i], c)"
| "replay_entry (held, c) (WalCommit i) = (held, max c (op_index i))"

definition restart :: "Replica \<Rightarrow> Replica" where
  "restart r =
     (case foldl replay_entry ([], 0) (wal r) of
        (held, c) \<Rightarrow>
          \<lparr>current_term = current_term r, received_ops = held, committed_index = c,
           received_this_term = None, wal = wal r\<rparr>)"

text \<open>
  A replica's log is in order when the operations it holds have the indexes 1, 2,
  ... in this order, and its committed index is the index of one of them, or 0.
\<close>

fun numbered_from :: "int \<Rightarrow> OpId list \<Rightarrow> bool" where
  "numbered_from k [] = True"
| "numbered_from k (x # xs) = (op_index x = k \<and> numbered_from (k + 1) xs)"

definition log_in_order :: "Replica \<Rightarrow> bool" where
  "log_in_order r =
     (numbered_from 1 (received_ops r)
      \<and> 0 \<le> committed_index r \<and> committed_index r \<le> int (length (received_ops r)))"

text \<open>The replica after a sequence of pushes, one after the other.\<close>

definition pushes :: "Replica \<Rightarrow> ConsensusRequest list \<Rightarrow> Replica" where
  "pushes r reqs = foldl (\<lambda>s req. fst (UpdateConsensus s req)) r reqs"

section \<open>Observations on a run\<close>

text \<open>
  The statuses \<open>DoAppend\<close> returns when the appender calls it on the batches of a
  group in order, each call starting from the log the previous one left.
\<close>

fun DoAppend_statuses :: "Env \<Rightarrow> Log \<Rightarrow> LogEntryBatch list \<Rightarrow> Status list" where
  "DoAppend_statuses env lg [] = []"
| "DoAppend_statuses env lg (b # bs) =
     (case DoAppend env lg b of
        Returned (s, lg1) \<Rightarrow> s # DoAppend_statuses env lg1 bs
      | CheckFailed \<Rightarrow> []
      | Blocked \<Rightarrow> [])"

text \<open>Projections of the appender's calls: the statuses of its \<open>Sync\<close> calls, its
  \<open>DoAppend\<close> calls, and the statuses passed to the callback of one batch.\<close>

fun sync_calls :: "AppenderCall list \<Rightarrow> Status list" where
  "sync_calls [] = []"
| "sync_calls (CalledSync s # cs) = s # sync_calls cs"
| "sync_calls (c # cs) = sync_calls cs"

fun doappend_calls :: "AppenderCall list \<Rightarrow> (nat \<times> Status) list" where
  "doappend_calls [] = []"
| "doappend_calls (CalledDoAppend i s # cs) = (i, s) # doappend_calls cs"
| "doappend_calls (c # cs) = doappend_calls cs"

fun callbacks_of :: "nat \<Rightarrow> AppenderCall list \<Rightarrow> Status list" where
  "callbacks_of i [] = []"
| "callbacks_of i (RanCallback j s # cs) = (if j = i then s # callbacks_of i cs else callbacks_of i cs)"
| "callbacks_of i (c # cs) = callbacks_of i cs"

text \<open>What the first loop does with one batch whose \<open>DoAppend\<close> returned \<open>s\<close>.\<close>

definition append_calls :: "LogEntryBatch \<Rightarrow> Status \<Rightarrow> AppenderCall list" where
  "append_calls b s =
     CalledDoAppend (batch_id b) s #
       (if \<not> ok s \<and> \<not> callback_is_null b then [RanCallback (batch_id b) s] else [])"

definition mark_failed :: "LogEntryBatch \<Rightarrow> Status \<Rightarrow> LogEntryBatch" where
  "mark_failed b s = (if ok s then b else set_failed_to_append b)"

text \<open>
  \<open>grows_by P lg lg'\<close>: the history of \<open>lg'\<close> is that of \<open>lg\<close> followed by events
  that all satisfy \<open>P\<close>, and \<open>last_entry_op_id\<close> is the same.
\<close>

definition grows_by :: "(LogEvent \<Rightarrow> bool) \<Rightarrow> Log \<Rightarrow> Log \<Rightarrow> bool" where
  "grows_by P lg lg' =
     (\<exists>evs. history lg' = history lg @ evs \<and> list_all P evs
            \<and> last_entry_op_id lg' = last_entry_op_id lg)"

fun is_write :: "LogEvent \<Rightarrow> bool" where
  "is_write (WroteEntryBatch i) = True"
| "is_write e = False"

section \<open>Example runs\<close>

text \<open>
  An environment in which every call succeeds, a log that is being written, with
  four closed segments and the active one, and a few batches. \<open>failing_env i f\<close>
  fails the write of batch \<open>i\<close>, and the fsync when \<open>f\<close> holds; \<open>injecting_env\<close>
  has the append fault injection fire.
\<close>

definition last_replicate_id :: "LogEntryBatch \<Rightarrow> OpId" where
  "last_replicate_id b =
     (case entry_batch_pb b of [] \<Rightarrow> MinimumOpId | e # es \<Rightarrow> replicate_id (last (e # es)))"

definition quiet_env :: Env where
  "quiet_env =
     \<lparr>ext = (\<lambda>c lg. OK),
      inject_io_error_on_append = (\<lambda>lg. False),
      allocation_finished = (\<lambda>lg. True),
      MaxReplicateOpId = last_replicate_id,
      ByteSize = (\<lambda>es. 16 * length es),
      active_segment_Size = (\<lambda>lg. case active_segment lg of None \<Rightarrow> 0 | Some w \<Rightarrow> written_offset w),
      frame_bytes = (\<lambda>b. total_size_bytes b + 12),
      first_entry_offset = 0,
      GetWalSegmentFileName = (\<lambda>n. ''wal''),
      segment_file_size = (\<lambda>lg. 0)\<rparr>"

definition write_error :: Status where
  "write_error = Error IOError ''No space left on device'' 28"

definition fsync_error :: Status where
  "fsync_error = Error IOError ''Input/output error'' 5"

definition injected_error :: Status where
  "injected_error = Error IOError ''Injected IOError in Log::DoAppend()'' (-1)"

definition failing_env :: "nat \<Rightarrow> bool \<Rightarrow> Env" where
  "failing_env i sync_fails =
     quiet_env\<lparr>ext := (\<lambda>c lg. if c = WriteEntryBatch i then write_error
                              else if c = SegmentSync \<and> sync_fails then fsync_error
                              else OK)\<rparr>"

definition injecting_env :: Env where
  "injecting_env = quiet_env\<lparr>inject_io_error_on_append := (\<lambda>lg. True)\<rparr>"

definition footered :: "nat \<Rightarrow> int \<Rightarrow> int \<Rightarrow> ReadableLogSegment" where
  "footered n lo hi =
     \<lparr>sequence_number = n, path = ''wal'', file_size = 100,
      footer = Some \<lparr>num_entries = hi - lo + 1, has_min_replicate_index = True,
                     min_replicate_index = lo, max_replicate_index = hi\<rparr>\<rparr>"

definition five_segments :: "ReadableLogSegment list" where
  "five_segments =
     [footered 1 1 50, footered 2 51 100, footered 3 101 150, footered 4 151 200,
      \<lparr>sequence_number = 5, path = ''wal'', file_size = 10, footer = None\<rparr>]"

definition writing_log :: Log where
  "writing_log =
     \<lparr>log_state = kLogWriting, force_sync_all = True, sync_disabled = False,
      async_preallocate_segments = True, max_segment_size = 1048576,
      allocation_state = kAllocationNotStarted, active_segment_sequence_number = 5,
      active_segment = Some \<lparr>w_path = ''wal'', w_sequence_number = 5, written_offset = 0,
                              closed_footer = None\<rparr>,
      footer_builder = \<lparr>num_entries = 0, has_min_replicate_index = False,
                        min_replicate_index = 0, max_replicate_index = 0\<rparr>,
      last_entry_op_id = None, reader_segments = five_segments,
      entry_batch_queue = \<lparr>queue_items = [], queue_size = 0, queue_max_size = 4194304,
                            queue_shutdown = False\<rparr>,
      history = []\<rparr>"

definition replicate_batch :: "nat \<Rightarrow> int \<Rightarrow> int \<Rightarrow> LogEntryBatch" where
  "replicate_batch i t n =
     \<lparr>batch_id = i, batch_type = REPLICATE,
      entry_batch_pb = [\<lparr>entry_type = REPLICATE, replicate_id = \<lparr>op_term = t, op_index = n\<rparr>\<rparr>],
      total_size_bytes = 16, count = 1, batch_state = kEntryReady, callback_is_null = False\<rparr>"

definition commit_batch :: "nat \<Rightarrow> LogEntryBatch" where
  "commit_batch i =
     \<lparr>batch_id = i, batch_type = COMMIT,
      entry_batch_pb = [\<lparr>entry_type = COMMIT, replicate_id = MinimumOpId\<rparr>],
      total_size_bytes = 16, count = 1, batch_state = kEntryReady, callback_is_null = False\<rparr>"

text \<open>
  The replica of \<open>SetupSingleReplicaTest\<close>: of term 1, with operation 1.1 of the
  leader it elected, committed. The pushes of the integration test, by
  \<open>"fake_caller"\<close>.
\<close>

definition single_replica :: Replica where
  "single_replica =
     \<lparr>current_term = 1, received_ops = [\<lparr>op_term = 1, op_index = 1\<rparr>],
      committed_index = 1, received_this_term = Some \<lparr>op_term = 1, op_index = 1\<rparr>,
      wal = [WalReplicate \<lparr>op_term = 1, op_index = 1\<rparr>, WalCommit \<lparr>op_term = 1, op_index = 1\<rparr>]\<rparr>"

definition push :: "int \<Rightarrow> OpId \<Rightarrow> OpId list \<Rightarrow> int \<Rightarrow> ConsensusRequest" where
  "push t preceding new_ops committed =
     \<lparr>caller_uuid = ''fake_caller'', caller_term = t, preceding_op_id = preceding,
      ops = new_ops, req_committed_index = committed, all_replicated_index = 0\<rparr>"

text \<open>
  \<open>TestReplicaBehaviorViaRPC\<close> after its first two pushes: the replica holds 2.2,
  2.3 and 2.4, and has committed nothing of them.
\<close>

definition replica_with_three_ops :: Replica where
  "replica_with_three_ops =
     pushes single_replica
       [push 2 \<lparr>op_term = 1, op_index = 1\<rparr> [] 1,
        push 2 \<lparr>op_term = 1, op_index = 1\<rparr>
          [\<lparr>op_term = 2, op_index = 2\<rparr>, \<lparr>op_term = 2, op_index = 3\<rparr>,
           \<lparr>op_term = 2, op_index = 4\<rparr>] 1]"

text \<open>
  \<open>TestReplaceOperationStuckInPrepareQueue\<close> after its first push: the replica
  holds 2.2, 2.3 and 2.4, and has committed 2.2.
\<close>

definition replica_with_stuck_op :: Replica where
  "replica_with_stuck_op =
     pushes single_replica
       [push 2 \<lparr>op_term = 1, op_index = 1\<rparr>
          [\<lparr>op_term = 2, op_index = 2\<rparr>, \<lparr>op_term = 2, op_index = 3\<rparr>,
           \<lparr>op_term = 2, op_index = 4\<rparr>] 2]"



section \<open>Evaluation rules\<close>

lemmas log_defs =
  DoAppend_def roll_if_needed_def write_and_index_def poll_allocation_def add_event_def
  UpdateIndexForBatch_def UpdateFooterForBatch_def UpdateFooterForReplicateEntry_def
  AsyncAllocateSegment_def Sync_def RunThread_pass_def sync_failure_callbacks_def
  success_callbacks_def deletions_def set_failed_to_append_def failed_to_append_def
  GetLatestEntryOpId_def Let_def

lemmas example_defs =
  quiet_env_def failing_env_def injecting_env_def writing_log_def replicate_batch_def
  commit_batch_def last_replicate_id_def write_error_def fsync_error_def injected_error_def
  five_segments_def footered_def default_flags_def

lemmas consensus_defs =
  UpdateConsensus_def term_step_def has_op_def CheckOpInSequence_def status_of_def
  truncate_divergent_def commit_entries_def last_received_op_def restart_def pushes_def
  push_def single_replica_def Let_def

section \<open>Retention: the prefix GC deletes\<close>

text \<open>
  The loop returns its start value plus the number \<open>n\<close> of segments it passed: none
  of them met the stopping rule, and the next one, if there is one, does.
\<close>

lemma gc_loop_char:
  "\<exists>n. gc_loop fl ri segs rem_segs prefix_size = prefix_size + int n
     \<and> n \<le> length segs
     \<and> (\<forall>i<n. \<not> gc_stops_at fl ri (rem_segs - int i) (segs ! i))
     \<and> (n < length segs \<longrightarrow> gc_stops_at fl ri (rem_segs - int n) (segs ! n))"
proof (induction segs arbitrary: rem_segs prefix_size)
  case Nil
  show ?case by simp
next
  case (Cons segment rest)
  show ?case
  proof (cases "gc_stops_at fl ri rem_segs segment")
    case True
    then have "gc_loop fl ri (segment # rest) rem_segs prefix_size = prefix_size"
      by (auto simp: gc_stops_at_def HasFooter_def Let_def split: option.splits)
    with True show ?thesis by (intro exI[of _ 0]) simp
  next
    case False
    then have step: "gc_loop fl ri (segment # rest) rem_segs prefix_size
        = gc_loop fl ri rest (rem_segs - 1) (prefix_size + 1)"
      by (auto simp: gc_stops_at_def HasFooter_def Let_def split: option.splits)
    from Cons.IH[of "rem_segs - 1" "prefix_size + 1"] obtain n where
      n: "gc_loop fl ri rest (rem_segs - 1) (prefix_size + 1) = prefix_size + 1 + int n"
         "n \<le> length rest"
         "\<forall>i<n. \<not> gc_stops_at fl ri (rem_segs - 1 - int i) (rest ! i)"
         "n < length rest \<longrightarrow> gc_stops_at fl ri (rem_segs - 1 - int n) (rest ! n)"
      by blast
    have a: "\<forall>i<Suc n. \<not> gc_stops_at fl ri (rem_segs - int i) ((segment # rest) ! i)"
    proof (intro allI impI)
      fix i assume "i < Suc n"
      then show "\<not> gc_stops_at fl ri (rem_segs - int i) ((segment # rest) ! i)"
        using False n(3) by (cases i) (auto simp: algebra_simps)
    qed
    have b: "Suc n < length (segment # rest) \<longrightarrow>
        gc_stops_at fl ri (rem_segs - int (Suc n)) ((segment # rest) ! Suc n)"
      using n(4) by (auto simp: algebra_simps)
    show ?thesis
      using step n(1,2) a b by (intro exI[of _ "Suc n"]) simp
  qed
qed

text \<open>
  Claim C1. \<open>GetPrefixSizeToGC\<close> walks the segments from the oldest and stops at the
  first one for which the remaining count is at most \<open>log_min_segments_to_retain\<close>,
  or there is no footer, or \<open>max_replicate_index \<ge> for_durability\<close>, or
  \<open>max_replicate_index \<ge> for_peers\<close> while the remaining count is at most
  \<open>log_max_segments_to_retain\<close>. With \<open>n\<close> its result: no segment before position
  \<open>n\<close> meets the rule (with \<open>length segs - i\<close> segments remaining at position \<open>i\<close>),
  the segment at position \<open>n\<close> does if there is one, and the segments handed to GC
  are exactly the first \<open>n\<close> of the reader's. When that prefix is empty (and the two
  \<open>CHECK\<close>s of \<open>GC\<close> hold), \<open>GC\<close> returns \<open>OK\<close> with \<open>*num_gced = 0\<close> and
  leaves the log as it was.
\<close>

theorem GetPrefixSizeToGC_deletable_prefix:
  "0 \<le> GetPrefixSizeToGC fl ri segs
   \<and> nat (GetPrefixSizeToGC fl ri segs) \<le> length segs
   \<and> (\<forall>i < nat (GetPrefixSizeToGC fl ri segs).
        \<not> gc_stops_at fl ri (int (length segs) - int i) (segs ! i))
   \<and> (nat (GetPrefixSizeToGC fl ri segs) < length segs \<longrightarrow>
        gc_stops_at fl ri (int (length segs) - GetPrefixSizeToGC fl ri segs)
          (segs ! nat (GetPrefixSizeToGC fl ri segs)))
   \<and> GetSegmentsToGCUnlocked fl ri lg
       = take (nat (GetPrefixSizeToGC fl ri (reader_segments lg))) (reader_segments lg)
   \<and> (0 \<le> for_durability ri \<and> log_state lg = kLogWriting
        \<and> GetSegmentsToGCUnlocked fl ri lg = [] \<longrightarrow>
        GC fl env ri lg = Returned (OK, Some 0, lg))"
proof -
  obtain n where n: "GetPrefixSizeToGC fl ri segs = int n" "n \<le> length segs"
      "\<forall>i<n. \<not> gc_stops_at fl ri (int (length segs) - int i) (segs ! i)"
      "n < length segs \<longrightarrow> gc_stops_at fl ri (int (length segs) - int n) (segs ! n)"
    using gc_loop_char[of fl ri segs "int (length segs)" 0]
    unfolding GetPrefixSizeToGC_def by auto
  have g: "GetSegmentsToGCUnlocked fl ri lg
       = take (nat (GetPrefixSizeToGC fl ri (reader_segments lg))) (reader_segments lg)"
    by (simp add: GetSegmentsToGCUnlocked_def GetSegmentsSnapshot_def Let_def)
  have c: "0 \<le> for_durability ri \<and> log_state lg = kLogWriting
        \<and> GetSegmentsToGCUnlocked fl ri lg = [] \<longrightarrow>
        GC fl env ri lg = Returned (OK, Some 0, lg)"
    by (simp add: GC_def Let_def)
  show ?thesis using n g c by simp
qed

theorem GetPrefixSizeToGC_deletable_prefix_witness:
  "GetPrefixSizeToGC default_flags \<lparr>for_durability = 100, for_peers = 51\<rparr> five_segments = 1
   \<and> \<not> gc_stops_at default_flags \<lparr>for_durability = 100, for_peers = 51\<rparr> 5 (five_segments ! 0)
   \<and> gc_stops_at default_flags \<lparr>for_durability = 100, for_peers = 51\<rparr> 4 (five_segments ! 1)
   \<and> GetSegmentsToGCUnlocked default_flags \<lparr>for_durability = 100, for_peers = 51\<rparr> writing_log
        = [footered 1 1 50]
   \<and> GetSegmentsToGCUnlocked default_flags \<lparr>for_durability = 10, for_peers = 10\<rparr> writing_log = []
   \<and> GC default_flags quiet_env \<lparr>for_durability = 10, for_peers = 10\<rparr> writing_log
        = Returned (OK, Some 0, writing_log)"
proof -
  have a: "GetPrefixSizeToGC default_flags \<lparr>for_durability = 100, for_peers = 51\<rparr> five_segments = 1"
    by (simp add: GetPrefixSizeToGC_def HasFooter_def example_defs)
  have b: "GetPrefixSizeToGC default_flags \<lparr>for_durability = 10, for_peers = 10\<rparr> five_segments = 0"
    by (simp add: GetPrefixSizeToGC_def HasFooter_def example_defs)
  have r: "reader_segments writing_log = five_segments" "log_state writing_log = kLogWriting"
    by (simp_all add: writing_log_def)
  from GetPrefixSizeToGC_deletable_prefix[of default_flags "\<lparr>for_durability = 100, for_peers = 51\<rparr>"
      five_segments writing_log quiet_env]
    GetPrefixSizeToGC_deletable_prefix[of default_flags "\<lparr>for_durability = 10, for_peers = 10\<rparr>"
      five_segments writing_log quiet_env]
  show ?thesis
    unfolding a b r by (simp add: five_segments_def)
qed

section \<open>The appender's pass over a drained group\<close>

lemma sync_calls_append: "sync_calls (xs @ ys) = sync_calls xs @ sync_calls ys"
  by (induction xs rule: sync_calls.induct) auto

lemma doappend_calls_append: "doappend_calls (xs @ ys) = doappend_calls xs @ doappend_calls ys"
  by (induction xs rule: doappend_calls.induct) auto

lemma callbacks_of_append: "callbacks_of i (xs @ ys) = callbacks_of i xs @ callbacks_of i ys"
  by (induction i xs rule: callbacks_of.induct) auto

lemma append_batches_shape:
  "append_batches env lg bs ac = Returned (lg', bs', ac', calls) \<Longrightarrow>
     length (DoAppend_statuses env lg bs) = length bs
     \<and> calls = concat (map2 append_calls bs (DoAppend_statuses env lg bs))
     \<and> bs' = map2 mark_failed bs (DoAppend_statuses env lg bs)
     \<and> ac' = (ac \<and> list_all (\<lambda>b. batch_type b = COMMIT) bs)"
proof (induction bs arbitrary: lg ac lg' bs' ac' calls)
  case Nil
  then show ?case by simp
next
  case (Cons b rest)
  from Cons.prems obtain s lg1 where d: "DoAppend env lg b = Returned (s, lg1)"
    by (auto split: outcome.splits)
  let ?ac1 = "if ac \<and> batch_type b \<noteq> COMMIT then False else ac"
  from Cons.prems d obtain lg2 bs2 ac2 calls2 where
    r: "append_batches env lg1 rest ?ac1 = Returned (lg2, bs2, ac2, calls2)"
    by (auto simp: Let_def split: outcome.splits)
  from Cons.prems d r have e: "lg' = lg2" "bs' = mark_failed b s # bs2" "ac' = ac2"
      "calls = append_calls b s @ calls2"
    by (auto simp: Let_def mark_failed_def append_calls_def)
  from Cons.IH[OF r] d e show ?case by auto
qed


lemma sync_calls_append_call: "sync_calls (append_calls b s) = []"
  by (simp add: append_calls_def)

lemma doappend_calls_append_call: "doappend_calls (append_calls b s) = [(batch_id b, s)]"
  by (simp add: append_calls_def)

lemma sync_calls_append_calls: "sync_calls (concat (map2 append_calls bs sts)) = []"
proof (induction bs arbitrary: sts)
  case Nil
  show ?case by simp
next
  case (Cons b bs)
  show ?case by (cases sts) (simp_all add: sync_calls_append_call sync_calls_append Cons.IH)
qed

lemma sync_calls_failure: "sync_calls (sync_failure_callbacks s bs) = []"
  unfolding sync_failure_callbacks_def by (induction bs) auto

lemma sync_calls_deleted: "sync_calls (deletions bs) = []"
  unfolding deletions_def by (induction bs) auto

lemma sync_calls_success: "sync_calls (success_callbacks bs) = []"
  unfolding success_callbacks_def by (induction bs) (auto simp: sync_calls_append)

lemma doappend_calls_append_calls:
  "length sts = length bs \<Longrightarrow>
   doappend_calls (concat (map2 append_calls bs sts)) = zip (map batch_id bs) sts"
proof (induction bs arbitrary: sts)
  case Nil
  show ?case by simp
next
  case (Cons b bs)
  then show ?case by (cases sts) (simp_all add: doappend_calls_append_call doappend_calls_append)
qed

lemma doappend_calls_failure: "doappend_calls (sync_failure_callbacks s bs) = []"
  unfolding sync_failure_callbacks_def by (induction bs) auto

lemma doappend_calls_deleted: "doappend_calls (deletions bs) = []"
  unfolding deletions_def by (induction bs) auto

lemma doappend_calls_success: "doappend_calls (success_callbacks bs) = []"
  unfolding success_callbacks_def by (induction bs) (auto simp: doappend_calls_append)

lemma RunThread_pass_shape:
  assumes "RunThread_pass env lg entry_batches = Returned (lg', bs, calls)"
  shows "length (DoAppend_statuses env lg entry_batches) = length entry_batches
     \<and> bs = map2 mark_failed entry_batches (DoAppend_statuses env lg entry_batches)
     \<and> (if list_all (\<lambda>b. batch_type b = COMMIT) entry_batches
        then calls = concat (map2 append_calls entry_batches (DoAppend_statuses env lg entry_batches))
                     @ success_callbacks bs
        else \<exists>s. calls = concat (map2 append_calls entry_batches (DoAppend_statuses env lg entry_batches))
                     @ CalledSync s #
                       (if ok s then success_callbacks bs
                        else sync_failure_callbacks s bs @ deletions bs))"
proof -
  from assms obtain lg1 ac calls1 where
    a: "append_batches env lg entry_batches True = Returned (lg1, bs, ac, calls1)"
    unfolding RunThread_pass_def by (auto split: outcome.splits prod.splits if_splits)
  note sh = append_batches_shape[OF a]
  show ?thesis
  proof (cases "list_all (\<lambda>b. batch_type b = COMMIT) entry_batches")
    case True
    with sh have "ac" by simp
    with assms a sh True show ?thesis
      unfolding RunThread_pass_def by (auto split: if_splits)
  next
    case False
    with sh have "\<not> ac" by simp
    with assms a sh False show ?thesis
      unfolding RunThread_pass_def by (auto split: prod.splits if_splits)
  qed
qed



lemma concat_map2_nth:
  assumes "k < length bs" "length sts = length bs"
  shows "concat (map2 f bs sts)
       = concat (map2 f (take k bs) (take k sts)) @ f (bs ! k) (sts ! k)
         @ concat (map2 f (drop (Suc k) bs) (drop (Suc k) sts))"
proof -
  have "zip bs sts = take k (zip bs sts) @ (zip bs sts ! k) # drop (Suc k) (zip bs sts)"
    using assms by (intro id_take_nth_drop) simp
  then have "zip bs sts = zip (take k bs) (take k sts) @ (bs ! k, sts ! k)
                 # zip (drop (Suc k) bs) (drop (Suc k) sts)"
    using assms by (simp add: take_zip drop_zip)
  then show ?thesis by simp
qed

lemma mark_failed_fields:
  "batch_id (mark_failed b s) = batch_id b"
  "callback_is_null (mark_failed b s) = callback_is_null b"
  "\<not> ok s \<Longrightarrow> failed_to_append (mark_failed b s)"
  by (simp_all add: mark_failed_def set_failed_to_append_def failed_to_append_def)

text \<open>
  Claim C8. A \<open>DoAppend\<close> that fails does not end the pass: \<open>DoAppend\<close> is called
  on every batch of the group, in order, whatever the earlier calls returned. A
  batch whose \<open>DoAppend\<close> returned an error is marked \<open>failed_to_append\<close>, and if its
  callback is not null the callback is run with that error right after the call.
\<close>

theorem RunThread_pass_continues_after_failed_append:
  assumes "RunThread_pass env lg entry_batches = Returned (lg', bs, calls)"
  shows "length (DoAppend_statuses env lg entry_batches) = length entry_batches
     \<and> doappend_calls calls
         = zip (map batch_id entry_batches) (DoAppend_statuses env lg entry_batches)
     \<and> (\<forall>k < length entry_batches.
          \<not> ok (DoAppend_statuses env lg entry_batches ! k) \<longrightarrow>
            failed_to_append (bs ! k)
            \<and> (\<not> callback_is_null (entry_batches ! k) \<longrightarrow>
                 (\<exists>before after.
                    calls = before
                      @ [CalledDoAppend (batch_id (entry_batches ! k))
                           (DoAppend_statuses env lg entry_batches ! k),
                         RanCallback (batch_id (entry_batches ! k))
                           (DoAppend_statuses env lg entry_batches ! k)]
                      @ after
                    \<and> length (doappend_calls before) = k)))"
proof -
  let ?sts = "DoAppend_statuses env lg entry_batches"
  let ?A = "concat (map2 append_calls entry_batches ?sts)"
  note sh = RunThread_pass_shape[OF assms]
  from sh have len: "length ?sts = length entry_batches" by simp
  from sh have bs: "bs = map2 mark_failed entry_batches ?sts" by simp
  have "\<exists>later. calls = ?A @ later \<and> doappend_calls later = []"
  proof (cases "list_all (\<lambda>b. batch_type b = COMMIT) entry_batches")
    case True
    with sh have "calls = ?A @ success_callbacks bs" by simp
    then show ?thesis using doappend_calls_success by blast
  next
    case False
    with sh obtain s where "calls = ?A @ CalledSync s #
                       (if ok s then success_callbacks bs
                        else sync_failure_callbacks s bs @ deletions bs)"
      by auto
    moreover have "doappend_calls (CalledSync s #
                       (if ok s then success_callbacks bs
                        else sync_failure_callbacks s bs @ deletions bs)) = []"
      by (simp add: doappend_calls_success doappend_calls_failure doappend_calls_deleted
        doappend_calls_append)
    ultimately show ?thesis by blast
  qed
  then obtain later where c: "calls = ?A @ later" and l: "doappend_calls later = []"
    by blast
  have d: "doappend_calls calls = zip (map batch_id entry_batches) ?sts"
    unfolding c using len l by (simp add: doappend_calls_append doappend_calls_append_calls)
  have f: "\<forall>k < length entry_batches.
          \<not> ok (?sts ! k) \<longrightarrow>
            failed_to_append (bs ! k)
            \<and> (\<not> callback_is_null (entry_batches ! k) \<longrightarrow>
                 (\<exists>before after.
                    calls = before
                      @ [CalledDoAppend (batch_id (entry_batches ! k)) (?sts ! k),
                         RanCallback (batch_id (entry_batches ! k)) (?sts ! k)]
                      @ after
                    \<and> length (doappend_calls before) = k))"
  proof (intro allI impI conjI)
    fix k assume k: "k < length entry_batches" and nok: "\<not> ok (?sts ! k)"
    show "failed_to_append (bs ! k)"
      unfolding bs using k len nok by (simp add: mark_failed_fields)
    assume cb: "\<not> callback_is_null (entry_batches ! k)"
    let ?before = "concat (map2 append_calls (take k entry_batches) (take k ?sts))"
    let ?after = "concat (map2 append_calls (drop (Suc k) entry_batches) (drop (Suc k) ?sts)) @ later"
    have "calls = ?before @ append_calls (entry_batches ! k) (?sts ! k) @ ?after"
      unfolding c using concat_map2_nth[OF k len, of append_calls] by simp
    then have 1: "calls = ?before @ [CalledDoAppend (batch_id (entry_batches ! k)) (?sts ! k),
                         RanCallback (batch_id (entry_batches ! k)) (?sts ! k)] @ ?after"
      using nok cb by (simp add: append_calls_def)
    have 2: "length (doappend_calls ?before) = k"
      using k len by (simp add: doappend_calls_append_calls)
    from 1 2 show "\<exists>before after.
                    calls = before
                      @ [CalledDoAppend (batch_id (entry_batches ! k)) (?sts ! k),
                         RanCallback (batch_id (entry_batches ! k)) (?sts ! k)]
                      @ after
                    \<and> length (doappend_calls before) = k"
      by blast
  qed
  from len d f show ?thesis by blast
qed

theorem RunThread_pass_continues_after_failed_append_witness:
  "\<exists>lg' bs calls.
      RunThread_pass (failing_env 1 False) writing_log
          [replicate_batch 1 2 7, replicate_batch 2 2 8, commit_batch 3] = Returned (lg', bs, calls)
      \<and> doappend_calls calls = [(1, write_error), (2, OK), (3, OK)]
      \<and> \<not> ok write_error
      \<and> failed_to_append (bs ! 0)
      \<and> (\<exists>before after. calls = before @ [CalledDoAppend 1 write_error, RanCallback 1 write_error] @ after
            \<and> length (doappend_calls before) = 0)"
proof -
  let ?bs = "[replicate_batch 1 2 7, replicate_batch 2 2 8, commit_batch 3]"
  have "RunThread_pass (failing_env 1 False) writing_log ?bs \<noteq> CheckFailed
      \<and> RunThread_pass (failing_env 1 False) writing_log ?bs \<noteq> Blocked"
    by (simp add: log_defs example_defs)
  then obtain lg' bs calls where
    e: "RunThread_pass (failing_env 1 False) writing_log ?bs = Returned (lg', bs, calls)"
    by (cases "RunThread_pass (failing_env 1 False) writing_log ?bs") auto
  have st: "DoAppend_statuses (failing_env 1 False) writing_log ?bs = [write_error, OK, OK]"
    by (simp add: log_defs example_defs)
  note t = RunThread_pass_continues_after_failed_append[OF e]
  have d: "doappend_calls calls = [(1, write_error), (2, OK), (3, OK)]"
    using t st by (simp add: example_defs)
  have nok: "\<not> ok write_error" by (simp add: write_error_def)
  have f: "failed_to_append (bs ! 0)
      \<and> (\<exists>before after. calls = before @ [CalledDoAppend 1 write_error, RanCallback 1 write_error] @ after
            \<and> length (doappend_calls before) = 0)"
    using t[THEN conjunct2, THEN conjunct2, rule_format, of 0] st nok
    by (simp add: example_defs)
  from e d nok f show ?thesis by blast
qed

lemma callbacks_of_append_calls_other:
  "i \<notin> batch_id ` set bs \<Longrightarrow> callbacks_of i (concat (map2 append_calls bs sts)) = []"
proof (induction bs arbitrary: sts)
  case Nil
  show ?case by simp
next
  case (Cons b bs)
  then show ?case
    by (cases sts) (auto simp: callbacks_of_append append_calls_def)
qed

lemma callbacks_of_append_calls:
  "distinct (map batch_id bs) \<Longrightarrow> length sts = length bs \<Longrightarrow> k < length bs \<Longrightarrow>
   callbacks_of (batch_id (bs ! k)) (concat (map2 append_calls bs sts))
     = (if \<not> ok (sts ! k) \<and> \<not> callback_is_null (bs ! k) then [sts ! k] else [])"
proof (induction bs arbitrary: sts k)
  case Nil
  then show ?case by simp
next
  case (Cons b bs)
  from Cons.prems obtain s sts' where sts: "sts = s # sts'" by (cases sts) auto
  show ?case
  proof (cases k)
    case 0
    have "batch_id b \<notin> batch_id ` set bs" using Cons.prems(1) by auto
    then have "callbacks_of (batch_id b) (concat (map2 append_calls bs sts')) = []"
      by (rule callbacks_of_append_calls_other)
    with 0 sts show ?thesis by (simp add: callbacks_of_append append_calls_def)
  next
    case (Suc j)
    with Cons.prems sts have j: "j < length bs" "length sts' = length bs" "distinct (map batch_id bs)"
      by auto
    have "batch_id (bs ! j) \<in> batch_id ` set bs" using j(1) by simp
    moreover have "batch_id b \<notin> batch_id ` set bs" using Cons.prems(1) by simp
    ultimately have ne: "batch_id (bs ! j) \<noteq> batch_id b" by metis
    have "callbacks_of (batch_id (bs ! j)) (append_calls b s) = []"
      using ne by (simp add: append_calls_def)
    with Cons.IH[OF j(3) j(2) j(1)] Suc sts show ?thesis
      by (simp add: callbacks_of_append)
  qed
qed

lemma callbacks_of_failure_other:
  "i \<notin> batch_id ` set bs \<Longrightarrow> callbacks_of i (sync_failure_callbacks s bs) = []"
  unfolding sync_failure_callbacks_def by (induction bs) auto

lemma callbacks_of_failure:
  "distinct (map batch_id bs) \<Longrightarrow> k < length bs \<Longrightarrow>
   callbacks_of (batch_id (bs ! k)) (sync_failure_callbacks s bs)
     = (if callback_is_null (bs ! k) then [] else [s])"
proof (induction bs arbitrary: k)
  case Nil
  then show ?case by simp
next
  case (Cons b bs)
  show ?case
  proof (cases k)
    case 0
    have "batch_id b \<notin> batch_id ` set bs" using Cons.prems(1) by auto
    from callbacks_of_failure_other[OF this, of s] 0 show ?thesis
      by (simp add: sync_failure_callbacks_def)
  next
    case (Suc j)
    with Cons.prems have j: "j < length bs" "distinct (map batch_id bs)" by auto
    have "batch_id (bs ! j) \<in> batch_id ` set bs" using j(1) by simp
    moreover have "batch_id b \<notin> batch_id ` set bs" using Cons.prems(1) by simp
    ultimately have ne: "batch_id (bs ! j) \<noteq> batch_id b" by metis
    from Cons.IH[OF j(2) j(1)] Suc ne show ?thesis
      by (simp add: sync_failure_callbacks_def)
  qed
qed

lemma callbacks_of_deleted: "callbacks_of i (deletions bs) = []"
  unfolding deletions_def by (induction bs) auto

lemma sync_failure_callbacks_mark_failed:
  "length sts = length bs \<Longrightarrow>
   sync_failure_callbacks s (map2 mark_failed bs sts) = sync_failure_callbacks s bs"
proof (induction bs arbitrary: sts)
  case Nil
  show ?case by simp
next
  case (Cons b bs)
  then show ?case
    by (cases sts) (auto simp: sync_failure_callbacks_def mark_failed_fields)
qed

lemma deleted_mark_failed:
  "length sts = length bs \<Longrightarrow>
   deletions (map2 mark_failed bs sts) = deletions bs"
proof (induction bs arbitrary: sts)
  case Nil
  show ?case by simp
next
  case (Cons b bs)
  then show ?case by (cases sts) (auto simp: mark_failed_fields deletions_def)
qed

text \<open>
  Claim C9. When the group's \<open>Sync\<close> fails with \<open>s\<close>, the appender runs the
  callback of every batch of the group that has one with \<open>s\<close>, in order, and then
  deletes the batches. The loop does not look at \<open>failed_to_append\<close>: a batch whose
  \<open>DoAppend\<close> had failed has its callback run twice, first with the append error
  and then with \<open>s\<close> (the batches being distinct objects).
\<close>

theorem RunThread_pass_sync_failure_runs_every_callback:
  assumes "RunThread_pass env lg entry_batches = Returned (lg', bs, calls)"
      and "sync_calls calls = [s]" and "\<not> ok s"
  shows "(\<exists>before. calls = before @ CalledSync s
              # map (\<lambda>b. RanCallback (batch_id b) s)
                    (filter (\<lambda>b. \<not> callback_is_null b) entry_batches)
              @ deletions entry_batches)
     \<and> (\<forall>k < length entry_batches.
          distinct (map batch_id entry_batches) \<and> \<not> callback_is_null (entry_batches ! k) \<longrightarrow>
            callbacks_of (batch_id (entry_batches ! k)) calls
              = (if ok (DoAppend_statuses env lg entry_batches ! k) then [s]
                 else [DoAppend_statuses env lg entry_batches ! k, s]))"
proof -
  let ?sts = "DoAppend_statuses env lg entry_batches"
  let ?A = "concat (map2 append_calls entry_batches ?sts)"
  note sh = RunThread_pass_shape[OF assms(1)]
  from sh have len: "length ?sts = length entry_batches" by simp
  from sh have bs: "bs = map2 mark_failed entry_batches ?sts" by simp
  have nc: "\<not> list_all (\<lambda>b. batch_type b = COMMIT) entry_batches"
  proof
    assume "list_all (\<lambda>b. batch_type b = COMMIT) entry_batches"
    with sh have "sync_calls calls = []"
      by (simp add: sync_calls_append sync_calls_append_calls sync_calls_success)
    with assms(2) show False by simp
  qed
  with sh obtain s' where c': "calls = ?A @ CalledSync s' #
                       (if ok s' then success_callbacks bs
                        else sync_failure_callbacks s' bs @ deletions bs)"
    by auto
  then have "sync_calls calls = [s']"
    by (simp add: sync_calls_append sync_calls_append_calls sync_calls_success
          sync_calls_failure sync_calls_deleted)
  with assms(2) have "s' = s" by simp
  with c' assms(3) have c: "calls = ?A @ CalledSync s #
        sync_failure_callbacks s entry_batches @ deletions entry_batches"
    using len by (simp add: bs sync_failure_callbacks_mark_failed deleted_mark_failed)
  then have 1: "\<exists>before. calls = before @ CalledSync s
              # map (\<lambda>b. RanCallback (batch_id b) s)
                    (filter (\<lambda>b. \<not> callback_is_null b) entry_batches)
              @ deletions entry_batches"
    unfolding sync_failure_callbacks_def by blast
  have 2: "\<forall>k < length entry_batches.
          distinct (map batch_id entry_batches) \<and> \<not> callback_is_null (entry_batches ! k) \<longrightarrow>
            callbacks_of (batch_id (entry_batches ! k)) calls
              = (if ok (?sts ! k) then [s] else [?sts ! k, s])"
  proof (intro allI impI)
    fix k assume k: "k < length entry_batches"
      and h: "distinct (map batch_id entry_batches) \<and> \<not> callback_is_null (entry_batches ! k)"
    from h have dist: "distinct (map batch_id entry_batches)" by simp
    show "callbacks_of (batch_id (entry_batches ! k)) calls
              = (if ok (?sts ! k) then [s] else [?sts ! k, s])"
      unfolding c
      using h callbacks_of_append_calls[OF dist len k] callbacks_of_failure[OF dist k, of s]
      by (simp add: callbacks_of_append callbacks_of_deleted)
  qed
  from 1 2 show ?thesis by blast
qed

theorem RunThread_pass_sync_failure_runs_every_callback_witness:
  "\<exists>lg' bs calls.
      RunThread_pass (failing_env 1 True) writing_log
          [replicate_batch 1 2 7, replicate_batch 2 2 8] = Returned (lg', bs, calls)
      \<and> sync_calls calls = [fsync_error]
      \<and> \<not> ok fsync_error
      \<and> callbacks_of 1 calls = [write_error, fsync_error]
      \<and> callbacks_of 2 calls = [fsync_error]"
proof -
  let ?bs = "[replicate_batch 1 2 7, replicate_batch 2 2 8]"
  have "case RunThread_pass (failing_env 1 True) writing_log ?bs of
          Returned (lg', bs, calls) \<Rightarrow> sync_calls calls = [fsync_error]
        | CheckFailed \<Rightarrow> False | Blocked \<Rightarrow> False"
    by (simp add: log_defs example_defs)
  then obtain lg' bs calls where
    e: "RunThread_pass (failing_env 1 True) writing_log ?bs = Returned (lg', bs, calls)"
    and sc: "sync_calls calls = [fsync_error]"
    by (auto split: outcome.splits)
  have nok: "\<not> ok fsync_error" by (simp add: fsync_error_def)
  have st: "DoAppend_statuses (failing_env 1 True) writing_log ?bs = [write_error, OK]"
    by (simp add: log_defs example_defs)
  note t = RunThread_pass_sync_failure_runs_every_callback[OF e sc nok, THEN conjunct2, rule_format]
  have k0: "callbacks_of 1 calls = [write_error, fsync_error]"
    using t[of 0] st by (simp add: example_defs)
  have k1: "callbacks_of 2 calls = [fsync_error]"
    using t[of 1] st by (simp add: example_defs)
  from e sc nok k0 k1 show ?thesis by blast
qed

section \<open>DoAppend and the last entry's id\<close>

lemma grows_by_refl: "grows_by P lg lg"
  by (simp add: grows_by_def)

lemma grows_by_trans: "grows_by P a b \<Longrightarrow> grows_by P b c \<Longrightarrow> grows_by P a c"
  by (auto simp: grows_by_def)

lemma grows_by_add_event: "P e \<Longrightarrow> grows_by P lg (add_event e lg)"
  by (simp add: grows_by_def add_event_def)

lemma grows_by_same:
  "history lg' = history lg \<Longrightarrow> last_entry_op_id lg' = last_entry_op_id lg \<Longrightarrow> grows_by P lg lg'"
  by (simp add: grows_by_def)

lemma Sync_grows: "Sync env lg = (s, lg') \<Longrightarrow> grows_by (\<lambda>e. \<not> is_write e) lg lg'"
  by (auto simp: Sync_def Let_def grows_by_refl grows_by_add_event split: if_splits)

lemma AsyncAllocateSegment_grows:
  "AsyncAllocateSegment env lg = Returned (s, lg') \<Longrightarrow> grows_by (\<lambda>e. \<not> is_write e) lg lg'"
  by (auto simp: AsyncAllocateSegment_def Let_def grows_by_def add_event_def split: if_splits)

lemma CloseCurrentSegment_grows:
  "CloseCurrentSegment env lg = Returned (s, lg') \<Longrightarrow> grows_by (\<lambda>e. \<not> is_write e) lg lg'"
  by (auto simp: CloseCurrentSegment_def Let_def grows_by_def add_event_def split: if_splits option.splits)

lemma ReplaceSegmentInReaderUnlocked_grows:
  "ReplaceSegmentInReaderUnlocked env lg = Returned (s, lg') \<Longrightarrow> grows_by (\<lambda>e. \<not> is_write e) lg lg'"
  by (auto simp: ReplaceSegmentInReaderUnlocked_def Let_def grows_by_def split: if_splits option.splits)

lemma SwitchToAllocatedSegment_grows:
  "SwitchToAllocatedSegment env lg = Returned (s, lg') \<Longrightarrow> grows_by (\<lambda>e. \<not> is_write e) lg lg'"
  unfolding SwitchToAllocatedSegment_def ReplaceSegmentInReaderUnlocked_def Let_def
  by (auto simp: grows_by_def add_event_def split: if_splits outcome.splits prod.splits option.splits)

lemma RollOver_grows:
  assumes "RollOver env lg = Returned (s, lg')"
  shows "grows_by (\<lambda>e. \<not> is_write e) lg lg'"
proof -
  let ?lg0 = "if allocation_state lg = kAllocationInProgress
                 then lg\<lparr>allocation_state := kAllocationFinished\<rparr> else lg"
  have g0: "grows_by (\<lambda>e. \<not> is_write e) lg ?lg0" by (simp add: grows_by_def)
  obtain s1 lg1 where sy: "Sync env ?lg0 = (s1, lg1)" by (cases "Sync env ?lg0") auto
  have g1: "grows_by (\<lambda>e. \<not> is_write e) lg lg1"
    using g0 Sync_grows[OF sy] by (rule grows_by_trans)
  show ?thesis
  proof (cases "ok (ext env AllocationStatusGet ?lg0)")
    case False
    with assms g0 show ?thesis by (simp add: RollOver_def Let_def)
  next
    case a: True
    show ?thesis
    proof (cases "ok s1")
      case False
      with assms a sy g1 show ?thesis by (simp add: RollOver_def Let_def)
    next
      case b: True
      from assms a b sy obtain s2 lg2 where
        c: "CloseCurrentSegment env lg1 = Returned (s2, lg2)"
        and r: "(if \<not> ok s2 then Returned (s2, lg2) else SwitchToAllocatedSegment env lg2) = Returned (s, lg')"
        by (auto simp: RollOver_def Let_def split: outcome.splits)
      have g2: "grows_by (\<lambda>e. \<not> is_write e) lg lg2"
        using g1 CloseCurrentSegment_grows[OF c] by (rule grows_by_trans)
      show ?thesis
      proof (cases "ok s2")
        case False
        with r g2 show ?thesis by simp
      next
        case True
        with r have "SwitchToAllocatedSegment env lg2 = Returned (s, lg')" by simp
        from g2 SwitchToAllocatedSegment_grows[OF this] show ?thesis by (rule grows_by_trans)
      qed
    qed
  qed
qed

lemma poll_allocation_grows: "grows_by P lg (poll_allocation env lg)"
  by (simp add: poll_allocation_def grows_by_def)

lemma roll_if_needed_grows:
  assumes "roll_if_needed env lg n = Returned (s, lg')"
  shows "grows_by (\<lambda>e. \<not> is_write e) lg lg'"
proof -
  let ?lg = "poll_allocation env lg"
  note g = poll_allocation_grows[of "\<lambda>e. \<not> is_write e" lg env]
  consider (start) "allocation_state ?lg = kAllocationNotStarted"
      "active_segment_Size env ?lg + n + 4 > max_segment_size ?lg"
    | (room) "allocation_state ?lg = kAllocationNotStarted"
      "\<not> active_segment_Size env ?lg + n + 4 > max_segment_size ?lg"
    | (finished) "allocation_state ?lg = kAllocationFinished"
    | (progress) "allocation_state ?lg = kAllocationInProgress"
    by (cases "allocation_state ?lg") auto
  then show ?thesis
  proof cases
    case start
    with assms obtain s1 lg1 where
      a: "AsyncAllocateSegment env ?lg = Returned (s1, lg1)"
      and r: "(if \<not> ok s1 then Returned (s1, lg1)
               else if \<not> async_preallocate_segments lg1 then RollOver env lg1
               else Returned (OK, lg1)) = Returned (s, lg')"
      by (auto simp: roll_if_needed_def Let_def split: outcome.splits)
    have g1: "grows_by (\<lambda>e. \<not> is_write e) lg lg1"
      using g AsyncAllocateSegment_grows[OF a] by (rule grows_by_trans)
    from r show ?thesis
    proof (cases "\<not> ok s1 \<or> async_preallocate_segments lg1")
      case True
      with r g1 show ?thesis by (auto split: if_splits)
    next
      case False
      with r have "RollOver env lg1 = Returned (s, lg')" by simp
      from g1 RollOver_grows[OF this] show ?thesis by (rule grows_by_trans)
    qed
  next
    case room
    with assms g show ?thesis by (simp add: roll_if_needed_def Let_def)
  next
    case finished
    with assms have "RollOver env ?lg = Returned (s, lg')"
      by (simp add: roll_if_needed_def Let_def)
    from g RollOver_grows[OF this] show ?thesis by (rule grows_by_trans)
  next
    case progress
    with assms g show ?thesis by (simp add: roll_if_needed_def Let_def)
  qed
qed

lemma add_index_entries_grows:
  "add_index_entries env lg es off = (s, lg') \<Longrightarrow> grows_by (\<lambda>e. e \<noteq> Fsync) lg lg'"
proof (induction es arbitrary: lg)
  case Nil
  then show ?case by (simp add: grows_by_refl)
next
  case (Cons e es)
  show ?case
  proof (cases "ok (ext env (AddEntry (replicate_id e)) lg)")
    case False
    with Cons.prems show ?thesis by (simp add: grows_by_refl)
  next
    case True
    let ?lg1 = "add_event (AddedIndexEntry (replicate_id e) (active_segment_sequence_number lg) off) lg"
    from True Cons.prems have "add_index_entries env ?lg1 es off = (s, lg')" by simp
    from Cons.IH[OF this] have "grows_by (\<lambda>e. e \<noteq> Fsync) ?lg1 lg'" .
    moreover have "grows_by (\<lambda>e. e \<noteq> Fsync) lg ?lg1" by (rule grows_by_add_event) simp
    ultimately show ?thesis by (rule grows_by_trans[rotated])
  qed
qed

lemma UpdateIndexForBatch_grows:
  "UpdateIndexForBatch env lg b off = (s, lg') \<Longrightarrow> grows_by (\<lambda>e. e \<noteq> Fsync) lg lg'"
  by (auto simp: UpdateIndexForBatch_def grows_by_refl add_index_entries_grows split: if_splits)

lemma UpdateFooterForBatch_grows: "grows_by P lg (UpdateFooterForBatch b lg)"
  by (simp add: UpdateFooterForBatch_def Let_def grows_by_def)

lemma write_and_index_grows:
  assumes "write_and_index env lg b = Returned (s, lg')"
  shows "grows_by (\<lambda>e. e \<noteq> Fsync) lg lg'"
proof -
  from assms obtain seg where seg: "active_segment lg = Some seg"
    by (auto simp: write_and_index_def split: option.splits)
  let ?lg1 = "add_event (WroteEntryBatch (batch_id b))
                        (lg\<lparr>active_segment :=
                              Some (seg\<lparr>written_offset := written_offset seg + frame_bytes env b\<rparr>)\<rparr>)"
  have g1: "grows_by (\<lambda>e. e \<noteq> Fsync) lg ?lg1" by (simp add: grows_by_def add_event_def)
  show ?thesis
  proof (cases "ok (ext env (WriteEntryBatch (batch_id b)) lg)")
    case False
    with assms seg show ?thesis by (simp add: write_and_index_def Let_def grows_by_refl)
  next
    case w: True
    show ?thesis
    proof (cases "ok (ext env PostAppend ?lg1)")
      case False
      with assms seg w g1 show ?thesis by (simp add: write_and_index_def Let_def)
    next
      case p: True
      obtain s2 lg2 where u: "UpdateIndexForBatch env ?lg1 b (written_offset seg) = (s2, lg2)"
        by (cases "UpdateIndexForBatch env ?lg1 b (written_offset seg)") auto
      from assms seg w p u have "lg' = UpdateFooterForBatch b lg2"
        by (auto simp: write_and_index_def Let_def split: if_splits)
      moreover have "grows_by (\<lambda>e. e \<noteq> Fsync) lg lg2"
        using g1 UpdateIndexForBatch_grows[OF u] by (rule grows_by_trans)
      ultimately show ?thesis
        using UpdateFooterForBatch_grows[of "\<lambda>e. e \<noteq> Fsync" lg2 b] by (auto intro: grows_by_trans)
    qed
  qed
qed

lemma durable_batches_no_fsync: "Fsync \<notin> set ys \<Longrightarrow> durable_batches ys = []"
  by (induction ys rule: durable_batches.induct) auto

lemma durable_batches_append_no_fsync:
  "Fsync \<notin> set ys \<Longrightarrow> durable_batches (xs @ ys) = durable_batches xs"
  by (induction xs rule: durable_batches.induct) (auto simp: durable_batches_no_fsync)

lemma durable_batches_written:
  "i \<in> set (durable_batches xs) \<Longrightarrow> WroteEntryBatch i \<in> set xs"
  by (induction xs rule: durable_batches.induct) (auto split: if_splits)

lemma DoAppend_past_guards:
  assumes "batch_type b = REPLICATE"
      and "\<not> inject_io_error_on_append env lg"
      and "total_size_bytes b \<noteq> 0"
      and "DoAppend env lg b = Returned (s, lg')"
  shows "last_entry_op_id lg' = Some (MaxReplicateOpId env b)
       \<and> GetLatestEntryOpId lg' = MaxReplicateOpId env b
       \<and> (\<exists>later. history lg' = history lg @ SetLastEntryOpId (MaxReplicateOpId env b) # later)
       \<and> (WroteEntryBatch (batch_id b) \<notin> set (history lg) \<longrightarrow>
            batch_id b \<notin> set (durable_batches (history lg')))"
proof -
  define m where "m = MaxReplicateOpId env b"
  define lg1 where "lg1 = add_event (SetLastEntryOpId m) (lg\<lparr>last_entry_op_id := Some m\<rparr>)"
  have D: "DoAppend env lg b =
      (case roll_if_needed env lg1 (total_size_bytes b) of
            CheckFailed \<Rightarrow> CheckFailed
          | Blocked \<Rightarrow> Blocked
          | Returned (s, lg2) \<Rightarrow>
              if \<not> ok s then Returned (s, lg2)
              else write_and_index env lg2 b)"
    using assms(1-3) by (simp add: DoAppend_def Let_def lg1_def m_def)
  obtain s2 lg2 where
    r: "roll_if_needed env lg1 (total_size_bytes b) = Returned (s2, lg2)"
    using assms(4) unfolding D
    by (cases "roll_if_needed env lg1 (total_size_bytes b)") auto
  have w: "(if \<not> ok s2 then Returned (s2, lg2) else write_and_index env lg2 b) = Returned (s, lg')"
    using assms(4) unfolding D r by simp
  from roll_if_needed_grows[OF r] obtain evs where
    e: "history lg2 = history lg1 @ evs" "list_all (\<lambda>e. \<not> is_write e) evs"
       "last_entry_op_id lg2 = last_entry_op_id lg1"
    unfolding grows_by_def by blast
  have "grows_by (\<lambda>e. e \<noteq> Fsync) lg2 lg'"
  proof (cases "ok s2")
    case True
    with w have "write_and_index env lg2 b = Returned (s, lg')" by simp
    then show ?thesis by (rule write_and_index_grows)
  next
    case False
    with w have "lg' = lg2" by simp
    then show ?thesis by (simp add: grows_by_refl)
  qed
  then obtain evs' where
    e': "history lg' = history lg2 @ evs'" "list_all (\<lambda>e. e \<noteq> Fsync) evs'"
       "last_entry_op_id lg' = last_entry_op_id lg2"
    unfolding grows_by_def by blast
  have h1: "history lg1 = history lg @ [SetLastEntryOpId m]"
    by (simp add: lg1_def add_event_def)
  have l1: "last_entry_op_id lg1 = Some m"
    by (simp add: lg1_def add_event_def)
  have h: "history lg' = history lg @ SetLastEntryOpId m # evs @ evs'"
    using e(1) e'(1) h1 by simp
  have l: "last_entry_op_id lg' = Some m"
    using e(3) e'(3) l1 by simp
  have d: "batch_id b \<notin> set (durable_batches (history lg'))"
    if fresh: "WroteEntryBatch (batch_id b) \<notin> set (history lg)"
  proof
    assume a: "batch_id b \<in> set (durable_batches (history lg'))"
    have nf: "Fsync \<notin> set evs'" using e'(2) by (auto simp: list_all_iff)
    have "history lg' = (history lg @ SetLastEntryOpId m # evs) @ evs'" using h by simp
    then have "durable_batches (history lg') = durable_batches (history lg @ SetLastEntryOpId m # evs)"
      using durable_batches_append_no_fsync[OF nf, of "history lg @ SetLastEntryOpId m # evs"]
      by simp
    with a have "batch_id b \<in> set (durable_batches (history lg @ SetLastEntryOpId m # evs))"
      by simp
    then have "WroteEntryBatch (batch_id b) \<in> set (history lg @ SetLastEntryOpId m # evs)"
      by (rule durable_batches_written)
    with fresh have "WroteEntryBatch (batch_id b) \<in> set evs" by simp
    with e(2) show False by (auto simp: list_all_iff)
  qed
  have g: "GetLatestEntryOpId lg' = m" using l by (simp add: GetLatestEntryOpId_def)
  have x: "\<exists>later. history lg' = history lg @ SetLastEntryOpId m # later" using h by blast
  from l g x d show ?thesis unfolding m_def by blast
qed

text \<open>
  Claim C6. For a REPLICATE batch, \<open>DoAppend\<close> either returns at one of its two
  guards (the injected fault, or no data to write) having written nothing and
  changed nothing, or the first thing it does is set \<open>last_entry_op_id\<close> to the
  batch's \<open>MaxReplicateOpId\<close>: before the rollover, the write and anything else, and
  whatever status it returns in the end. \<open>DoAppend\<close> syncs nothing after its write,
  so when it returns the batch's bytes are not durable, while \<open>GetLatestEntryOpId\<close>
  already answers with the batch's id.
\<close>

theorem DoAppend_sets_last_entry_op_id_before_write:
  assumes "batch_type b = REPLICATE" and "DoAppend env lg b = Returned (s, lg')"
  shows "(if inject_io_error_on_append env lg \<or> total_size_bytes b = 0
          then lg' = lg
          else last_entry_op_id lg' = Some (MaxReplicateOpId env b)
             \<and> GetLatestEntryOpId lg' = MaxReplicateOpId env b
             \<and> (\<exists>later. history lg' = history lg @ SetLastEntryOpId (MaxReplicateOpId env b) # later))
       \<and> (WroteEntryBatch (batch_id b) \<notin> set (history lg) \<longrightarrow>
            batch_id b \<notin> set (durable_batches (history lg')))"
proof (cases "inject_io_error_on_append env lg \<or> total_size_bytes b = 0")
  case True
  with assms(2) have e: "lg' = lg" by (auto simp: DoAppend_def Let_def split: if_splits)
  have "WroteEntryBatch (batch_id b) \<notin> set (history lg) \<longrightarrow>
            batch_id b \<notin> set (durable_batches (history lg))"
    using durable_batches_written by blast
  with True e show ?thesis by simp
next
  case False
  then have g: "\<not> inject_io_error_on_append env lg" "total_size_bytes b \<noteq> 0" by simp_all
  from DoAppend_past_guards[OF assms(1) g assms(2)] False show ?thesis by simp
qed

theorem DoAppend_sets_last_entry_op_id_before_write_witness:
  "\<exists>lg'. DoAppend (failing_env 1 False) writing_log (replicate_batch 1 2 7) = Returned (write_error, lg')
      \<and> \<not> ok write_error
      \<and> GetLatestEntryOpId lg' = \<lparr>op_term = 2, op_index = 7\<rparr>
      \<and> history lg' = [SetLastEntryOpId \<lparr>op_term = 2, op_index = 7\<rparr>]
      \<and> 1 \<notin> set (durable_batches (history lg'))"
proof -
  have "case DoAppend (failing_env 1 False) writing_log (replicate_batch 1 2 7) of
          Returned (s, lg') \<Rightarrow> s = write_error \<and> history lg' = [SetLastEntryOpId \<lparr>op_term = 2, op_index = 7\<rparr>]
        | CheckFailed \<Rightarrow> False | Blocked \<Rightarrow> False"
    by (simp add: log_defs example_defs)
  then obtain lg' where
    e: "DoAppend (failing_env 1 False) writing_log (replicate_batch 1 2 7) = Returned (write_error, lg')"
    and h: "history lg' = [SetLastEntryOpId \<lparr>op_term = 2, op_index = 7\<rparr>]"
    by (auto split: outcome.splits)
  have t: "batch_type (replicate_batch 1 2 7) = REPLICATE" by (simp add: replicate_batch_def)
  from DoAppend_sets_last_entry_op_id_before_write[OF t e] h e show ?thesis
    by (auto simp: example_defs)
qed

section \<open>Reserve on a closed queue\<close>

text \<open>
  Claim C7. While the log is shutting down (it is still in state \<open>kLogWriting\<close>,
  which \<open>Reserve\<close> checks, and its entry queue has been shut down), \<open>Reserve\<close>
  returns \<open>kLogShutdownStatus\<close>, the \<open>ServiceUnavailable\<close> status with the message
  "WAL is shutting down"; no batch is handed back and the log, its queue included,
  is unchanged.
\<close>

theorem Reserve_while_shutting_down:
  assumes "log_state lg = kLogWriting" and "queue_shutdown (entry_batch_queue lg)"
  shows "Reserve env addr tp entry_batch lg = Returned (kLogShutdownStatus, None, lg)
       \<and> kLogShutdownStatus = Error ServiceUnavailable ''WAL is shutting down'' ESHUTDOWN
       \<and> \<not> ok kLogShutdownStatus"
  using assms by (simp add: Reserve_def BlockingPut_def Let_def kLogShutdownStatus_def)

theorem Reserve_while_shutting_down_witness:
  "log_state (writing_log\<lparr>entry_batch_queue := Shutdown_queue (entry_batch_queue writing_log)\<rparr>)
      = kLogWriting
   \<and> queue_shutdown (entry_batch_queue
        (writing_log\<lparr>entry_batch_queue := Shutdown_queue (entry_batch_queue writing_log)\<rparr>))
   \<and> Reserve quiet_env 1 REPLICATE [\<lparr>entry_type = REPLICATE, replicate_id = \<lparr>op_term = 2, op_index = 7\<rparr>\<rparr>]
        (writing_log\<lparr>entry_batch_queue := Shutdown_queue (entry_batch_queue writing_log)\<rparr>)
      = Returned (Error ServiceUnavailable ''WAL is shutting down'' 108, None,
          writing_log\<lparr>entry_batch_queue := Shutdown_queue (entry_batch_queue writing_log)\<rparr>)
   \<and> queue_items (entry_batch_queue
        (writing_log\<lparr>entry_batch_queue := Shutdown_queue (entry_batch_queue writing_log)\<rparr>)) = []"
proof -
  let ?lg = "writing_log\<lparr>entry_batch_queue := Shutdown_queue (entry_batch_queue writing_log)\<rparr>"
  have a: "log_state ?lg = kLogWriting" by (simp add: writing_log_def)
  have b: "queue_shutdown (entry_batch_queue ?lg)" by (simp add: Shutdown_queue_def)
  have c: "queue_items (entry_batch_queue ?lg) = []" by (simp add: Shutdown_queue_def writing_log_def)
  from Reserve_while_shutting_down[OF a b, of quiet_env 1 REPLICATE
      "[\<lparr>entry_type = REPLICATE, replicate_id = \<lparr>op_term = 2, op_index = 7\<rparr>\<rparr>]"] a b c
  show ?thesis by (simp add: ESHUTDOWN_def)
qed

section \<open>The latest entry's id of a fresh log\<close>

text \<open>
  Claim C10. If \<open>last_entry_op_id\<close> is uninitialized (nothing has been appended),
  \<open>GetLatestEntryOpId\<close> stores \<open>MinimumOpId()\<close>, the id \<open>(0,0)\<close>.
\<close>

theorem GetLatestEntryOpId_uninitialized:
  assumes "last_entry_op_id lg = None"
  shows "GetLatestEntryOpId lg = MinimumOpId
       \<and> GetLatestEntryOpId lg = \<lparr>op_term = 0, op_index = 0\<rparr>"
  using assms by (simp add: GetLatestEntryOpId_def MinimumOpId_def)

theorem GetLatestEntryOpId_uninitialized_witness:
  "last_entry_op_id writing_log = None
   \<and> GetLatestEntryOpId writing_log = \<lparr>op_term = 0, op_index = 0\<rparr>"
proof -
  have a: "last_entry_op_id writing_log = None" by (simp add: writing_log_def)
  from GetLatestEntryOpId_uninitialized[OF a] a show ?thesis by (simp add: MinimumOpId_def)
qed

section \<open>UpdateConsensus at the replica\<close>

lemma replica_with_three_ops_state:
  "replica_with_three_ops =
     \<lparr>current_term = 2,
      received_ops = [\<lparr>op_term = 1, op_index = 1\<rparr>, \<lparr>op_term = 2, op_index = 2\<rparr>,
                      \<lparr>op_term = 2, op_index = 3\<rparr>, \<lparr>op_term = 2, op_index = 4\<rparr>],
      committed_index = 1,
      received_this_term = Some \<lparr>op_term = 2, op_index = 4\<rparr>,
      wal = [WalReplicate \<lparr>op_term = 1, op_index = 1\<rparr>, WalCommit \<lparr>op_term = 1, op_index = 1\<rparr>,
             WalReplicate \<lparr>op_term = 2, op_index = 2\<rparr>, WalReplicate \<lparr>op_term = 2, op_index = 3\<rparr>,
             WalReplicate \<lparr>op_term = 2, op_index = 4\<rparr>]\<rparr>"
  by (simp add: replica_with_three_ops_def consensus_defs)

lemma replica_with_stuck_op_state:
  "replica_with_stuck_op =
     \<lparr>current_term = 2,
      received_ops = [\<lparr>op_term = 1, op_index = 1\<rparr>, \<lparr>op_term = 2, op_index = 2\<rparr>,
                      \<lparr>op_term = 2, op_index = 3\<rparr>, \<lparr>op_term = 2, op_index = 4\<rparr>],
      committed_index = 2,
      received_this_term = Some \<lparr>op_term = 2, op_index = 4\<rparr>,
      wal = [WalReplicate \<lparr>op_term = 1, op_index = 1\<rparr>, WalCommit \<lparr>op_term = 1, op_index = 1\<rparr>,
             WalReplicate \<lparr>op_term = 2, op_index = 2\<rparr>, WalReplicate \<lparr>op_term = 2, op_index = 3\<rparr>,
             WalReplicate \<lparr>op_term = 2, op_index = 4\<rparr>, WalCommit \<lparr>op_term = 2, op_index = 2\<rparr>]\<rparr>"
  by (simp add: replica_with_stuck_op_def consensus_defs)





text \<open>
  The pushes that follow in \<open>TestReplaceOperationStuckInPrepareQueue\<close>: 3.4 and
  3.5 after 2.3, then the commit through index 5; the test then reads the rows of
  3.4 and 3.5.
\<close>

lemma TestReplaceOperationStuckInPrepareQueue_pushes:
  "received_ops
     (pushes replica_with_stuck_op
        [push 3 \<lparr>op_term = 2, op_index = 3\<rparr>
           [\<lparr>op_term = 3, op_index = 4\<rparr>, \<lparr>op_term = 3, op_index = 5\<rparr>] 2,
         push 3 \<lparr>op_term = 3, op_index = 5\<rparr> [] 5])
     = [\<lparr>op_term = 1, op_index = 1\<rparr>, \<lparr>op_term = 2, op_index = 2\<rparr>,
        \<lparr>op_term = 2, op_index = 3\<rparr>, \<lparr>op_term = 3, op_index = 4\<rparr>,
        \<lparr>op_term = 3, op_index = 5\<rparr>]
   \<and> committed_index
       (pushes replica_with_stuck_op
          [push 3 \<lparr>op_term = 2, op_index = 3\<rparr>
             [\<lparr>op_term = 3, op_index = 4\<rparr>, \<lparr>op_term = 3, op_index = 5\<rparr>] 2,
           push 3 \<lparr>op_term = 3, op_index = 5\<rparr> [] 5]) = 5"
  by (simp add: replica_with_stuck_op_state consensus_defs)

text \<open>
  The pushes that follow in \<open>TestReplicaBehaviorViaRPC\<close>: the two that are
  rejected, the KUDU-639 push (the test then reads the rows of 2.2 and 2.3 only),
  2.5 and 2.6 after 2.4 (the test then reads the row of 2.4 as well), two rounds of
  a new leader that replaces the operations after 2.4, and the commit through index
  6 (the test then reads the rows of the last leader's operations 5 and 6).
\<close>

lemma TestReplicaBehaviorViaRPC_pushes:
  "map committed_index
     [pushes replica_with_three_ops
        [push 2 \<lparr>op_term = 2, op_index = 4\<rparr> [\<lparr>op_term = 2, op_index = 6\<rparr>] 1,
         push 2 \<lparr>op_term = 2, op_index = 4\<rparr>
           [\<lparr>op_term = 3, op_index = 5\<rparr>, \<lparr>op_term = 2, op_index = 6\<rparr>] 1,
         push 2 \<lparr>op_term = 2, op_index = 2\<rparr> [\<lparr>op_term = 2, op_index = 3\<rparr>] 4],
      pushes replica_with_three_ops
        [push 2 \<lparr>op_term = 2, op_index = 4\<rparr> [\<lparr>op_term = 2, op_index = 6\<rparr>] 1,
         push 2 \<lparr>op_term = 2, op_index = 4\<rparr>
           [\<lparr>op_term = 3, op_index = 5\<rparr>, \<lparr>op_term = 2, op_index = 6\<rparr>] 1,
         push 2 \<lparr>op_term = 2, op_index = 2\<rparr> [\<lparr>op_term = 2, op_index = 3\<rparr>] 4,
         push 2 \<lparr>op_term = 2, op_index = 4\<rparr>
           [\<lparr>op_term = 2, op_index = 5\<rparr>, \<lparr>op_term = 2, op_index = 6\<rparr>] 4]]
     = [3, 4]
   \<and> received_ops
       (pushes replica_with_three_ops
          [push 2 \<lparr>op_term = 2, op_index = 4\<rparr> [\<lparr>op_term = 2, op_index = 6\<rparr>] 1,
           push 2 \<lparr>op_term = 2, op_index = 4\<rparr>
             [\<lparr>op_term = 3, op_index = 5\<rparr>, \<lparr>op_term = 2, op_index = 6\<rparr>] 1,
           push 2 \<lparr>op_term = 2, op_index = 2\<rparr> [\<lparr>op_term = 2, op_index = 3\<rparr>] 4,
           push 2 \<lparr>op_term = 2, op_index = 4\<rparr>
             [\<lparr>op_term = 2, op_index = 5\<rparr>, \<lparr>op_term = 2, op_index = 6\<rparr>] 4,
           push 3 \<lparr>op_term = 2, op_index = 4\<rparr>
             [\<lparr>op_term = 3, op_index = 5\<rparr>, \<lparr>op_term = 3, op_index = 6\<rparr>] 4,
           push 4 \<lparr>op_term = 2, op_index = 4\<rparr>
             [\<lparr>op_term = 4, op_index = 5\<rparr>, \<lparr>op_term = 4, op_index = 6\<rparr>] 4,
           push 4 \<lparr>op_term = 4, op_index = 6\<rparr> [] 6])
     = [\<lparr>op_term = 1, op_index = 1\<rparr>, \<lparr>op_term = 2, op_index = 2\<rparr>,
        \<lparr>op_term = 2, op_index = 3\<rparr>, \<lparr>op_term = 2, op_index = 4\<rparr>,
        \<lparr>op_term = 4, op_index = 5\<rparr>, \<lparr>op_term = 4, op_index = 6\<rparr>]
   \<and> committed_index
       (pushes replica_with_three_ops
          [push 2 \<lparr>op_term = 2, op_index = 4\<rparr> [\<lparr>op_term = 2, op_index = 6\<rparr>] 1,
           push 2 \<lparr>op_term = 2, op_index = 4\<rparr>
             [\<lparr>op_term = 3, op_index = 5\<rparr>, \<lparr>op_term = 2, op_index = 6\<rparr>] 1,
           push 2 \<lparr>op_term = 2, op_index = 2\<rparr> [\<lparr>op_term = 2, op_index = 3\<rparr>] 4,
           push 2 \<lparr>op_term = 2, op_index = 4\<rparr>
             [\<lparr>op_term = 2, op_index = 5\<rparr>, \<lparr>op_term = 2, op_index = 6\<rparr>] 4,
           push 3 \<lparr>op_term = 2, op_index = 4\<rparr>
             [\<lparr>op_term = 3, op_index = 5\<rparr>, \<lparr>op_term = 3, op_index = 6\<rparr>] 4,
           push 4 \<lparr>op_term = 2, op_index = 4\<rparr>
             [\<lparr>op_term = 4, op_index = 5\<rparr>, \<lparr>op_term = 4, op_index = 6\<rparr>] 4,
           push 4 \<lparr>op_term = 4, op_index = 6\<rparr> [] 6]) = 6"
  by (simp add: replica_with_three_ops_state consensus_defs)

lemma has_op_term_step: "has_op (term_step r req) i = has_op r i"
  by (simp add: has_op_def term_step_def)

lemma skip_held_term_step: "skip_held (term_step r req) p xs = skip_held r p xs"
  by (induction xs arbitrary: p) (simp_all add: has_op_term_step)

lemma skip_held_last: "skip_held r p xs = (prev, new) \<Longrightarrow> last (prev # new) = last (p # xs)"
  by (induction xs arbitrary: p) (auto split: if_splits)

lemma skip_held_has: "has_op r p \<Longrightarrow> skip_held r p xs = (prev, new) \<Longrightarrow> has_op r prev"
  by (induction xs arbitrary: p) (auto split: if_splits)

lemma skip_held_new: "skip_held r p xs = (prev, new) \<Longrightarrow> new \<noteq> [] \<Longrightarrow> \<not> has_op r (hd new)"
  by (induction xs arbitrary: p) (auto split: if_splits)


lemma CheckOpsInSequence_index:
  "CheckOpsInSequence prev new = None \<Longrightarrow>
   op_index (last (prev # new)) = op_index prev + int (length new)"
proof (induction new arbitrary: prev)
  case Nil
  then show ?case by simp
next
  case (Cons x xs)
  from Cons.prems have a: "CheckOpInSequence prev x = None" "CheckOpsInSequence x xs = None"
    by (auto split: option.splits)
  from a(1) have "op_index x = op_index prev + 1"
    by (auto simp: CheckOpInSequence_def split: if_splits)
  with Cons.IH[OF a(2)] show ?case by simp
qed


lemma last_received_op_if:
  "last_received_op r = (if received_ops r = [] then MinimumOpId else last (received_ops r))"
  by (cases "received_ops r") (simp_all add: last_received_op_def)

text \<open>The three ways a push that passes the term check ends.\<close>

lemma UpdateConsensus_mismatch:
  "\<not> caller_term req < current_term r \<Longrightarrow> \<not> has_op r (preceding_op_id req) \<Longrightarrow>
   UpdateConsensus r req =
     ((term_step r req)\<lparr>received_ops := truncate_divergent (preceding_op_id req) (received_ops r)\<rparr>,
      status_of ((term_step r req)\<lparr>received_ops :=
                   truncate_divergent (preceding_op_id req) (received_ops r)\<rparr>)
        (Some PRECEDING_ENTRY_DIDNT_MATCH) None)"
  by (simp add: UpdateConsensus_def has_op_term_step Let_def) (simp add: term_step_def)

lemma UpdateConsensus_rejected:
  "\<not> caller_term req < current_term r \<Longrightarrow> has_op r (preceding_op_id req) \<Longrightarrow>
   skip_held r (preceding_op_id req) (ops req) = (prev, new_ops) \<Longrightarrow>
   CheckOpsInSequence prev new_ops = Some msg \<Longrightarrow>
   UpdateConsensus r req = (term_step r req, status_of (term_step r req) None (Some msg))"
  by (simp add: UpdateConsensus_def has_op_term_step skip_held_term_step Let_def)

lemma UpdateConsensus_accepted:
  "\<not> caller_term req < current_term r \<Longrightarrow> has_op r (preceding_op_id req) \<Longrightarrow>
   skip_held r (preceding_op_id req) (ops req) = (prev, new_ops) \<Longrightarrow>
   CheckOpsInSequence prev new_ops = None \<Longrightarrow>
   UpdateConsensus r req =
     (let r0 = term_step r req;
          r1 = (if new_ops = [] then r0
                else r0\<lparr>received_ops :=
                         filter (\<lambda>i. op_index i \<le> op_index prev) (received_ops r0) @ new_ops,
                       received_this_term := Some (last new_ops),
                       wal := wal r0 @ map WalReplicate new_ops\<rparr>);
          up_to = max (committed_index r1)
                    (min (req_committed_index req) (op_index (last (prev # new_ops))));
          r2 = r1\<lparr>committed_index := up_to,
                  wal := wal r1 @ commit_entries (committed_index r1) up_to (received_ops r1)\<rparr>
      in (r2, status_of r2 None None))"
  by (simp add: UpdateConsensus_def has_op_term_step skip_held_term_step Let_def)

lemma UpdateConsensus_status:
  "UpdateConsensus r req = (r', resp) \<Longrightarrow>
   last_committed_idx resp = committed_index r' \<and> last_received resp = last_received_op r'"
  by (auto simp: UpdateConsensus_def Let_def status_of_def
      split: if_splits option.splits prod.splits)

text \<open>A push is accepted only past the term check and the preceding-id check, with
  the operations that remain in sequence.\<close>

lemma accepted_cases:
  assumes "UpdateConsensus r req = (r', resp)"
      and "status_error resp = None" and "rpc_error resp = None"
  obtains prev new_ops where
      "\<not> caller_term req < current_term r" "has_op r (preceding_op_id req)"
      "skip_held r (preceding_op_id req) (ops req) = (prev, new_ops)"
      "CheckOpsInSequence prev new_ops = None"
proof -
  have t: "\<not> caller_term req < current_term r"
    using assms by (auto simp: UpdateConsensus_def status_of_def)
  have h: "has_op r (preceding_op_id req)"
  proof (rule ccontr)
    assume "\<not> has_op r (preceding_op_id req)"
    from UpdateConsensus_mismatch[OF t this] assms show False by (auto simp: status_of_def)
  qed
  obtain prev new_ops where s: "skip_held r (preceding_op_id req) (ops req) = (prev, new_ops)"
    by (cases "skip_held r (preceding_op_id req) (ops req)") auto
  have c: "CheckOpsInSequence prev new_ops = None"
  proof (cases "CheckOpsInSequence prev new_ops")
    case None
    then show ?thesis .
  next
    case (Some msg)
    from UpdateConsensus_rejected[OF t h s Some] assms show ?thesis by (auto simp: status_of_def)
  qed
  from t h s c that show ?thesis by blast
qed


text \<open>Lists of operations numbered in sequence.\<close>

lemma numbered_from_append:
  "numbered_from k (xs @ ys) = (numbered_from k xs \<and> numbered_from (k + int (length xs)) ys)"
  by (induction xs arbitrary: k) (auto simp: algebra_simps)

lemma numbered_from_mem:
  "numbered_from k xs \<Longrightarrow> x \<in> set xs \<Longrightarrow> k \<le> op_index x \<and> op_index x < k + int (length xs)"
  by (induction xs arbitrary: k) force+

lemma numbered_from_take: "numbered_from k xs \<Longrightarrow> numbered_from k (take n xs)"
proof (induction xs arbitrary: k n)
  case Nil
  then show ?case by simp
next
  case (Cons x xs)
  then show ?case by (cases n) auto
qed

lemma numbered_from_filter_le:
  "numbered_from k xs \<Longrightarrow> k - 1 \<le> m \<Longrightarrow>
   filter (\<lambda>i. op_index i \<le> m) xs = take (nat (m - k + 1)) xs"
proof (induction xs arbitrary: k)
  case Nil
  then show ?case by simp
next
  case (Cons x xs)
  from Cons.prems have x: "op_index x = k" and n: "numbered_from (k + 1) xs" by simp_all
  show ?case
  proof (cases "k \<le> m")
    case True
    then have "nat (m - k + 1) = Suc (nat (m - (k + 1) + 1))" by simp
    moreover from Cons.IH[OF n] True
    have "filter (\<lambda>i. op_index i \<le> m) xs = take (nat (m - (k + 1) + 1)) xs" by simp
    ultimately show ?thesis using x True by simp
  next
    case False
    with Cons.prems(2) have m: "m = k - 1" by simp
    have "filter (\<lambda>i. op_index i \<le> m) xs = []"
    proof -
      have "\<And>y. y \<in> set xs \<Longrightarrow> \<not> op_index y \<le> m"
        using numbered_from_mem[OF n] m by force
      then show ?thesis by (simp add: filter_empty_conv)
    qed
    with x m show ?thesis by simp
  qed
qed

lemma numbered_from_last:
  "numbered_from k xs \<Longrightarrow> xs \<noteq> [] \<Longrightarrow> op_index (last xs) = k + int (length xs) - 1"
  by (induction xs arbitrary: k) (auto split: if_splits)

lemma CheckOpsInSequence_numbered:
  "CheckOpsInSequence prev new = None \<Longrightarrow> numbered_from (op_index prev + 1) new"
proof (induction new arbitrary: prev)
  case Nil
  then show ?case by simp
next
  case (Cons x xs)
  from Cons.prems have a: "CheckOpInSequence prev x = None" "CheckOpsInSequence x xs = None"
    by (auto split: option.splits)
  from a(1) have "op_index x = op_index prev + 1"
    by (auto simp: CheckOpInSequence_def split: if_splits)
  with Cons.IH[OF a(2)] show ?case by simp
qed

lemma log_in_order_last_received:
  "log_in_order r \<Longrightarrow> op_index (last_received_op r) = int (length (received_ops r))"
proof (cases "received_ops r = []")
  case True
  then show ?thesis by (simp add: last_received_op_if MinimumOpId_def)
next
  case False
  assume "log_in_order r"
  then have "numbered_from 1 (received_ops r)" by (simp add: log_in_order_def)
  from numbered_from_last[OF this False] False show ?thesis
    by (simp add: last_received_op_if)
qed

lemma log_in_order_has_op:
  assumes "log_in_order r" and "has_op r i"
  shows "op_index i \<le> int (length (received_ops r))"
proof (cases "i \<in> set (received_ops r)")
  case True
  from assms(1) have "numbered_from 1 (received_ops r)" by (simp add: log_in_order_def)
  from numbered_from_mem[OF this True] show ?thesis by simp
next
  case False
  with assms show ?thesis by (simp add: has_op_def log_in_order_def)
qed

text \<open>Whatever \<open>UpdateConsensus\<close> answers, a log that was in order stays in order.\<close>

lemma UpdateConsensus_log_in_order:
  assumes u: "UpdateConsensus r req = (r', resp)" and w: "log_in_order r"
  shows "log_in_order r'"
proof (cases "caller_term req < current_term r")
  case True
  with u have "r' = r" by (simp add: UpdateConsensus_def)
  with w show ?thesis by simp
next
  case t: False
  have f: "committed_index (term_step r req) = committed_index r"
          "received_ops (term_step r req) = received_ops r"
    by (simp_all add: term_step_def)
  from w have nf: "numbered_from 1 (received_ops r)" and c0: "0 \<le> committed_index r"
      and cl: "committed_index r \<le> int (length (received_ops r))"
    by (simp_all add: log_in_order_def)
  show ?thesis
  proof (cases "has_op r (preceding_op_id req)")
    case False
    let ?p = "preceding_op_id req"
    from u have r': "received_ops r' = truncate_divergent ?p (received_ops r)"
        "committed_index r' = committed_index r"
      unfolding UpdateConsensus_mismatch[OF t False] using f by auto
    show ?thesis
    proof (cases "list_ex (\<lambda>i. op_index i = op_index ?p \<and> op_term i \<noteq> op_term ?p) (received_ops r)")
      case False
      with r' w show ?thesis by (simp add: truncate_divergent_def log_in_order_def)
    next
      case True
      then obtain i where i: "i \<in> set (received_ops r)" "op_index i = op_index ?p"
        by (auto simp: list_ex_iff)
      from numbered_from_mem[OF nf i(1)] i(2)
      have b: "1 \<le> op_index ?p" "op_index ?p \<le> int (length (received_ops r))" by simp_all
      from \<open>\<not> has_op r ?p\<close> have c: "committed_index r < op_index ?p" by (simp add: has_op_def)
      have "filter (\<lambda>i. op_index i < op_index ?p) (received_ops r)
          = filter (\<lambda>i. op_index i \<le> op_index ?p - 1) (received_ops r)"
        by (rule filter_cong) auto
      also have "\<dots> = take (nat (op_index ?p - 1)) (received_ops r)"
        using numbered_from_filter_le[OF nf, of "op_index ?p - 1"] b by simp
      finally have e: "received_ops r' = take (nat (op_index ?p - 1)) (received_ops r)"
        using True r' by (simp add: truncate_divergent_def)
      have "numbered_from 1 (received_ops r')" unfolding e by (rule numbered_from_take[OF nf])
      moreover have "int (length (received_ops r')) = op_index ?p - 1"
        unfolding e using b by simp
      ultimately show ?thesis using r'(2) c c0 by (simp add: log_in_order_def)
    qed
  next
    case h: True
    obtain prev new_ops where s: "skip_held r (preceding_op_id req) (ops req) = (prev, new_ops)"
      by (cases "skip_held r (preceding_op_id req) (ops req)") auto
    show ?thesis
    proof (cases "CheckOpsInSequence prev new_ops")
      case (Some msg)
      from u have "received_ops r' = received_ops r" "committed_index r' = committed_index r"
        unfolding UpdateConsensus_rejected[OF t h s Some] using f by auto
      with w show ?thesis by (simp add: log_in_order_def)
    next
      case None
      note a = UpdateConsensus_accepted[OF t h s None]
      have hp: "op_index prev \<le> int (length (received_ops r))"
        by (rule log_in_order_has_op[OF w skip_held_has[OF h s]])
      show ?thesis
      proof (cases "new_ops = []")
        case True
        from u have r': "received_ops r' = received_ops r"
            "committed_index r' = max (committed_index r) (min (req_committed_index req) (op_index prev))"
          unfolding a Let_def using True f by auto
        with nf c0 cl hp show ?thesis by (auto simp: log_in_order_def)
      next
        case False
        from u have r': "received_ops r'
              = filter (\<lambda>i. op_index i \<le> op_index prev) (received_ops r) @ new_ops"
            "committed_index r'
              = max (committed_index r)
                  (min (req_committed_index req) (op_index (last (prev # new_ops))))"
          unfolding a Let_def using False f by auto
        from skip_held_new[OF s False] have n: "committed_index r < op_index (hd new_ops)"
          by (simp add: has_op_def)
        note nn = CheckOpsInSequence_numbered[OF None]
        obtain x xs where xs: "new_ops = x # xs" using False by (cases new_ops) auto
        with nn have "op_index x = op_index prev + 1" by simp
        with n xs c0 have p0: "0 \<le> op_index prev" "committed_index r \<le> op_index prev" by simp_all
        have k: "filter (\<lambda>i. op_index i \<le> op_index prev) (received_ops r)
            = take (nat (op_index prev)) (received_ops r)"
          using numbered_from_filter_le[OF nf, of "op_index prev"] p0 by simp
        have lk: "int (length (take (nat (op_index prev)) (received_ops r))) = op_index prev"
          using p0 hp by simp
        have 1: "numbered_from 1 (received_ops r')"
          unfolding r'(1) k numbered_from_append lk using numbered_from_take[OF nf] nn
          by (simp add: add.commute)
        have len: "int (length (received_ops r')) = op_index prev + int (length new_ops)"
          unfolding r'(1) k using lk by simp
        have "op_index (last (prev # new_ops)) = op_index prev + int (length new_ops)"
          by (rule CheckOpsInSequence_index[OF None])
        with r'(2) len p0 c0 have "0 \<le> committed_index r'"
            "committed_index r' \<le> int (length (received_ops r'))"
          by auto
        with 1 show ?thesis by (simp add: log_in_order_def)
      qed
    qed
  qed
qed

text \<open>
  Claim C2, as the spec has it, fails on the KUDU-639 push of
  \<open>TestReplicaBehaviorViaRPC\<close>: the replica holds 2.2, 2.3 and 2.4, the leader
  sends 2.3 again with committed index 4. The push is accepted and 2.4 stays, so
  the last operation received has index 4; the committed index becomes 3, not the
  minimum of 4 and 4.
\<close>

theorem UpdateConsensus_commits_below_last_received:
  "\<exists>r' resp.
     UpdateConsensus replica_with_three_ops
       (push 2 \<lparr>op_term = 2, op_index = 2\<rparr> [\<lparr>op_term = 2, op_index = 3\<rparr>] 4) = (r', resp)
     \<and> status_error resp = None \<and> rpc_error resp = None
     \<and> last_received_op r' = \<lparr>op_term = 2, op_index = 4\<rparr>
     \<and> committed_index r' = 3
     \<and> committed_index r'
         \<noteq> min (req_committed_index
                  (push 2 \<lparr>op_term = 2, op_index = 2\<rparr> [\<lparr>op_term = 2, op_index = 3\<rparr>] 4))
               (op_index (last_received_op r'))"
  by (simp add: replica_with_three_ops_state consensus_defs)

text \<open>
  Claim C2, amended. After a push the replica accepted (its response carries no
  error), the committed index is the smaller of the request's committed index and
  the index of the last operation the leader sent in the request (its preceding id
  when it sent none), unless the replica's committed index was higher already,
  which is then kept. The response reports the committed index. On a replica whose
  log is in order, whatever the answer to the push, the log is in order afterwards
  and the committed index is at most the index of the last operation received.
\<close>

theorem UpdateConsensus_commit_index_advance:
  assumes "UpdateConsensus r req = (r', resp)"
  shows "(status_error resp = None \<and> rpc_error resp = None \<longrightarrow>
            committed_index r'
              = max (committed_index r)
                  (min (req_committed_index req)
                       (op_index (last (preceding_op_id req # ops req)))))
       \<and> last_committed_idx resp = committed_index r'
       \<and> last_received resp = last_received_op r'
       \<and> (log_in_order r \<longrightarrow>
            log_in_order r'
            \<and> committed_index r' \<le> op_index (last_received_op r')
            \<and> last_committed_idx resp \<le> op_index (last_received resp))"
proof -
  have 1: "committed_index r'
           = max (committed_index r)
               (min (req_committed_index req) (op_index (last (preceding_op_id req # ops req))))"
    if acc: "status_error resp = None" "rpc_error resp = None"
  proof -
    from assms acc obtain prev new_ops where
        t: "\<not> caller_term req < current_term r" and h: "has_op r (preceding_op_id req)"
        and s: "skip_held r (preceding_op_id req) (ops req) = (prev, new_ops)"
        and c: "CheckOpsInSequence prev new_ops = None"
      by (rule accepted_cases)
    note u = UpdateConsensus_accepted[OF t h s c]
    have l: "last (prev # new_ops) = last (preceding_op_id req # ops req)"
      by (rule skip_held_last[OF s])
    have f: "committed_index (term_step r req) = committed_index r"
      by (simp add: term_step_def)
    from assms show ?thesis
      unfolding u Let_def l using f by (auto split: if_splits)
  qed
  have 2: "last_committed_idx resp = committed_index r'"
      "last_received resp = last_received_op r'"
    using UpdateConsensus_status[OF assms] by simp_all
  have 3: "log_in_order r'
        \<and> committed_index r' \<le> op_index (last_received_op r')
        \<and> last_committed_idx resp \<le> op_index (last_received resp)"
    if w: "log_in_order r"
  proof -
    have w': "log_in_order r'" by (rule UpdateConsensus_log_in_order[OF assms w])
    then have "committed_index r' \<le> op_index (last_received_op r')"
      using log_in_order_last_received[OF w'] by (simp add: log_in_order_def)
    with w' 2 show ?thesis by simp
  qed
  from 1 2 3 show ?thesis by blast
qed

theorem UpdateConsensus_commit_index_advance_witness:
  "\<exists>r1 resp1 r2 resp2.
     UpdateConsensus replica_with_three_ops
       (push 2 \<lparr>op_term = 2, op_index = 2\<rparr> [\<lparr>op_term = 2, op_index = 3\<rparr>] 4) = (r1, resp1)
     \<and> log_in_order replica_with_three_ops
     \<and> committed_index replica_with_three_ops = 1
     \<and> status_error resp1 = None \<and> rpc_error resp1 = None
     \<and> committed_index r1 = 3 \<and> last_committed_idx resp1 = 3
     \<and> last_received_op r1 = \<lparr>op_term = 2, op_index = 4\<rparr>
     \<and> UpdateConsensus r1
         (push 2 \<lparr>op_term = 2, op_index = 4\<rparr>
            [\<lparr>op_term = 2, op_index = 5\<rparr>, \<lparr>op_term = 2, op_index = 6\<rparr>] 4) = (r2, resp2)
     \<and> status_error resp2 = None \<and> rpc_error resp2 = None
     \<and> committed_index r2 = 4 \<and> last_committed_idx resp2 = 4
     \<and> last_received_op r2 = \<lparr>op_term = 2, op_index = 6\<rparr>
     \<and> committed_index r2 \<le> op_index (last_received_op r2)"
proof -
  let ?q1 = "push 2 \<lparr>op_term = 2, op_index = 2\<rparr> [\<lparr>op_term = 2, op_index = 3\<rparr>] 4"
  let ?q2 = "push 2 \<lparr>op_term = 2, op_index = 4\<rparr>
            [\<lparr>op_term = 2, op_index = 5\<rparr>, \<lparr>op_term = 2, op_index = 6\<rparr>] 4"
  obtain r1 resp1 where e1: "UpdateConsensus replica_with_three_ops ?q1 = (r1, resp1)"
    by (cases "UpdateConsensus replica_with_three_ops ?q1") auto
  then have a1: "status_error resp1 = None" "rpc_error resp1 = None"
      "received_ops r1 = [\<lparr>op_term = 1, op_index = 1\<rparr>, \<lparr>op_term = 2, op_index = 2\<rparr>,
                          \<lparr>op_term = 2, op_index = 3\<rparr>, \<lparr>op_term = 2, op_index = 4\<rparr>]"
      "current_term r1 = 2"
    by (auto simp: replica_with_three_ops_state consensus_defs)
  have c0: "committed_index replica_with_three_ops = 1"
    by (simp add: replica_with_three_ops_state)
  have w0: "log_in_order replica_with_three_ops"
    by (simp add: replica_with_three_ops_state log_in_order_def)
  note t1 = UpdateConsensus_commit_index_advance[OF e1]
  from t1 a1(1,2) c0 have c1: "committed_index r1 = 3" "last_committed_idx resp1 = 3"
    by (simp_all add: push_def)
  from t1 w0 have w1: "log_in_order r1" by blast
  have l1: "last_received_op r1 = \<lparr>op_term = 2, op_index = 4\<rparr>"
    by (simp add: last_received_op_def a1(3))
  obtain r2 resp2 where e2: "UpdateConsensus r1 ?q2 = (r2, resp2)"
    by (cases "UpdateConsensus r1 ?q2") auto
  then have a2: "status_error resp2 = None" "rpc_error resp2 = None"
      "last_received_op r2 = \<lparr>op_term = 2, op_index = 6\<rparr>"
    using a1(3,4) c1(1)
    by (auto simp: UpdateConsensus_def term_step_def has_op_def CheckOpInSequence_def
        status_of_def last_received_op_def push_def Let_def)
  note t2 = UpdateConsensus_commit_index_advance[OF e2]
  from t2 a2(1,2) c1 have c2: "committed_index r2 = 4" "last_committed_idx resp2 = 4"
    by (simp_all add: push_def)
  from t2 w1 have b2: "committed_index r2 \<le> op_index (last_received_op r2)" by blast
  from e1 w0 a1 c0 c1 l1 e2 a2 c2 b2 show ?thesis by blast
qed












end
